theory Spec2Isabelle
  imports Main "HOL-Library.Word"
begin

section \<open>The ledger-resident contract (BulkWithdraw.sol)\<close>

subsection \<open>Machine types, failures and storage\<close>

type_synonym address = "160 word"
type_synonym uint256 = "256 word"
type_synonym uint16 = "16 word"
type_synonym uint8 = "8 word"

text \<open>
  A transaction of the contract either returns or fails.  A failed \<open>require\<close> carries
  its message (\<open>Revert\<close>), a checked-arithmetic overflow of Solidity 0.8 is
  \<open>Panic 0x11\<close>, and a call carrying more value than its sender owns never runs
  (\<open>OutOfFunds\<close>).
\<close>

datatype error = Revert string | Panic nat | OutOfFunds

datatype event = TokenAdded uint16

text \<open>
  The storage of the contract: \<open>owner\<close> of \<open>Ownable\<close>, the value of the
  \<open>Counters.Counter\<close> named \<open>tokenId\<close>, and the mapping \<open>tokens\<close>, whose
  unwritten slots read as the zero address.
\<close>

record BulkWithdraw =
  owner :: address
  tokenId :: uint256
  tokens :: "uint16 \<Rightarrow> address"

definition constructor_BulkWithdraw :: "address \<Rightarrow> BulkWithdraw" where
  "constructor_BulkWithdraw deployer = \<lparr>owner = deployer, tokenId = 0, tokens = (\<lambda>_. 0)\<rparr>"

text \<open>The modifier \<open>onlyOwner\<close> of \<open>Ownable\<close>.\<close>

definition onlyOwner :: "address \<Rightarrow> BulkWithdraw \<Rightarrow> error option" where
  "onlyOwner msg_sender s =
     (if owner s = msg_sender then None else Some (Revert ''Ownable: caller is not the owner''))"

subsection \<open>The token registry\<close>

definition getTokenById :: "BulkWithdraw \<Rightarrow> uint16 \<Rightarrow> error + address" where
  "getTokenById s id' =
     (if id' \<noteq> 0 then Inr (tokens s id') else Inl (Revert ''id should not be 0''))"

text \<open>
  The loop of \<open>getTokenByAddress\<close>: \<open>for (uint16 i; i < tokenId.current(); i++)\<close>.
  The comparison is made in \<open>uint256\<close>; the increment is checked, so it fails when
  \<open>i\<close> holds the largest \<open>uint16\<close>.
\<close>

function getTokenByAddress_loop :: "BulkWithdraw \<Rightarrow> address \<Rightarrow> uint16 \<Rightarrow> error + uint16" where
  "getTokenByAddress_loop s token i =
     (if (ucast i :: uint256) < tokenId s then
        (if tokens s i = token then Inr i
         else if i = 0xFFFF then Inl (Panic 0x11)
         else getTokenByAddress_loop s token (i + 1))
      else Inr 0)"
  by pat_completeness auto
termination
proof (relation "measure (\<lambda>(s, token, i). 65536 - unat i)")
  show "wf (measure (\<lambda>(s, token, i). 65536 - unat i))"
    by simp
next
  fix s :: BulkWithdraw and token :: address and i :: uint16
  assume "i \<noteq> 0xFFFF"
  then have "unat i \<noteq> 65535"
    by (simp add: word_unat_eq_iff)
  moreover have "unat i < 65536"
    using unsigned_less [of i] by simp
  ultimately have "unat i + unat (1 :: uint16) < 2 ^ LENGTH(16)"
    by simp
  then have "unat (i + 1) = unat i + unat (1 :: uint16)"
    by (simp only: unat_add_lem)
  then have "unat (i + 1) = Suc (unat i)"
    by simp
  moreover have "unat i < 65536"
    using unsigned_less [of i] by simp
  ultimately show "((s, token, i + 1), (s, token, i)) \<in> measure (\<lambda>(s, token, i). 65536 - unat i)"
    by simp
qed

definition getTokenByAddress :: "BulkWithdraw \<Rightarrow> address \<Rightarrow> error + uint16" where
  "getTokenByAddress s token = getTokenByAddress_loop s token 0"

text \<open>
  \<open>addToken\<close>: \<open>Counters.increment\<close> is an unchecked \<open>+ 1\<close> on \<open>uint256\<close>, and
  \<open>uint16(tokenId.current())\<close> keeps the low 16 bits.  A failed call leaves the storage
  as it was; a successful one returns the new storage and the event it emitted.
\<close>

definition addToken :: "address \<Rightarrow> address \<Rightarrow> BulkWithdraw \<Rightarrow> error + (BulkWithdraw \<times> event)" where
  "addToken msg_sender token s =
     (case onlyOwner msg_sender s of
        Some e \<Rightarrow> Inl e
      | None \<Rightarrow>
          (let s1 = s\<lparr>tokenId := tokenId s + 1\<rparr>;
               currentId = (ucast (tokenId s1) :: uint16)
           in if tokens s1 currentId = 0
              then Inr (s1\<lparr>tokens := (tokens s1)(currentId := token)\<rparr>, TokenAdded currentId)
              else Inl (Revert ''Token already set!'')))"

text \<open>
  A sequence of registrations, each sent by \<open>msg_sender\<close> as a transaction of its own:
  the first failure stops the sequence, and the events of the calls are collected in
  order.
\<close>

fun addTokens :: "address \<Rightarrow> address list \<Rightarrow> BulkWithdraw \<Rightarrow> error + (BulkWithdraw \<times> event list)" where
  "addTokens msg_sender [] s = Inr (s, [])"
| "addTokens msg_sender (token # rest) s =
     (case addToken msg_sender token s of
        Inl e \<Rightarrow> Inl e
      | Inr (s', ev) \<Rightarrow>
          (case addTokens msg_sender rest s' of
             Inl e \<Rightarrow> Inl e
           | Inr (s'', evs) \<Rightarrow> Inr (s'', ev # evs)))"

subsection \<open>Transactions and the native-coin path\<close>

text \<open>
  The ledger applies a transaction whole or not at all: the state after a failed call is
  the state before it.
\<close>

definition after_tx :: "'w \<Rightarrow> error + 'w \<Rightarrow> 'w" where
  "after_tx w r = (case r of Inl e \<Rightarrow> w | Inr w' \<Rightarrow> w')"

record InvoiceParams =
  ip_receiver :: address
  ip_amount :: uint256

text \<open>
  Native balances, in wei, per address.  \<open>payable(to).transfer(amt)\<close> fails when the
  executor holds less than \<open>amt\<close> or when the receiver does not accept the coin
  (\<open>accepts\<close>: a property of the receivers, outside the contract); otherwise it moves
  the coin.
\<close>

type_synonym ether = "address \<Rightarrow> nat"

definition transfer :: "(address \<Rightarrow> bool) \<Rightarrow> address \<Rightarrow> address \<Rightarrow> uint256 \<Rightarrow> ether \<Rightarrow> error + ether" where
  "transfer accepts this to amt bal =
     (if bal this < unat amt \<or> \<not> accepts to then Inl (Revert [])
      else (let bal1 = bal(this := bal this - unat amt)
            in Inr (bal1(to := bal1 to + unat amt))))"

text \<open>
  The first loop of \<open>etherBulkTransferAmounts\<close>:
  \<open>for (uint8 i; i < params.length; i++) totalAmount += params[i].amount\<close>, both
  additions checked.
\<close>

function sum_loop :: "InvoiceParams list \<Rightarrow> uint8 \<Rightarrow> uint256 \<Rightarrow> error + uint256" where
  "sum_loop params i totalAmount =
     (if unat i < length params then
        (if 2 ^ 256 \<le> unat totalAmount + unat (ip_amount (params ! unat i)) then Inl (Panic 0x11)
         else if i = 0xFF then Inl (Panic 0x11)
         else sum_loop params (i + 1) (totalAmount + ip_amount (params ! unat i)))
      else Inr totalAmount)"
  by pat_completeness auto
termination
proof (relation "measure (\<lambda>(params, i, totalAmount). 256 - unat i)")
  show "wf (measure (\<lambda>(params, i, totalAmount). 256 - unat i))"
    by simp
next
  fix params :: "InvoiceParams list" and i :: uint8 and totalAmount :: uint256
  assume "i \<noteq> 0xFF"
  then have "unat i \<noteq> 255"
    by (simp add: word_unat_eq_iff)
  moreover have "unat i < 256"
    using unsigned_less [of i] by simp
  ultimately have "unat i + unat (1 :: uint8) < 2 ^ LENGTH(8)"
    by simp
  then have "unat (i + 1) = unat i + unat (1 :: uint8)"
    by (simp only: unat_add_lem)
  then have "unat (i + 1) = Suc (unat i)"
    by simp
  moreover have "unat i < 256"
    using unsigned_less [of i] by simp
  ultimately show "((params, i + 1, totalAmount + ip_amount (params ! unat i)), (params, i, totalAmount))
      \<in> measure (\<lambda>(params, i, totalAmount). 256 - unat i)"
    by simp
qed

text \<open>The second loop: one \<open>transfer\<close> per invoice, in input order.\<close>

function transfer_loop :: "(address \<Rightarrow> bool) \<Rightarrow> address \<Rightarrow> InvoiceParams list \<Rightarrow> uint8 \<Rightarrow> ether \<Rightarrow> error + ether" where
  "transfer_loop accepts this params i bal =
     (if unat i < length params then
        (case transfer accepts this (ip_receiver (params ! unat i)) (ip_amount (params ! unat i)) bal of
           Inl e \<Rightarrow> Inl e
         | Inr bal' \<Rightarrow>
             if i = 0xFF then Inl (Panic 0x11)
             else transfer_loop accepts this params (i + 1) bal')
      else Inr bal)"
  by pat_completeness auto
termination
proof (relation "measure (\<lambda>(accepts, this, params, i, bal). 256 - unat i)")
  show "wf (measure (\<lambda>(accepts, this, params, i, bal). 256 - unat i))"
    by simp
next
  fix accepts :: "address \<Rightarrow> bool" and this :: address and params :: "InvoiceParams list"
    and i :: uint8 and bal bal' :: ether
  assume "i \<noteq> 0xFF"
  then have "unat i \<noteq> 255"
    by (simp add: word_unat_eq_iff)
  moreover have "unat i < 256"
    using unsigned_less [of i] by simp
  ultimately have "unat i + unat (1 :: uint8) < 2 ^ LENGTH(8)"
    by simp
  then have "unat (i + 1) = unat i + unat (1 :: uint8)"
    by (simp only: unat_add_lem)
  then have "unat (i + 1) = Suc (unat i)"
    by simp
  moreover have "unat i < 256"
    using unsigned_less [of i] by simp
  ultimately show "((accepts, this, params, i + 1, bal'), (accepts, this, params, i, bal))
      \<in> measure (\<lambda>(accepts, this, params, i, bal). 256 - unat i)"
    by simp
qed

text \<open>
  \<open>etherBulkTransferAmounts\<close> is \<open>payable\<close>: the value sent with the call is moved
  from the sender to the executor before the body runs, so \<open>address(this).balance\<close>
  counts it.
\<close>

definition receive_value :: "address \<Rightarrow> address \<Rightarrow> uint256 \<Rightarrow> ether \<Rightarrow> ether" where
  "receive_value this msg_sender msg_value bal =
     (let bal1 = bal(msg_sender := bal msg_sender - unat msg_value)
      in bal1(this := bal1 this + unat msg_value))"

definition etherBulkTransferAmounts ::
  "(address \<Rightarrow> bool) \<Rightarrow> address \<Rightarrow> address \<Rightarrow> uint256 \<Rightarrow> InvoiceParams list \<Rightarrow> BulkWithdraw \<Rightarrow> ether \<Rightarrow> error + ether" where
  "etherBulkTransferAmounts accepts this msg_sender msg_value params s bal =
     (if bal msg_sender < unat msg_value then Inl OutOfFunds
      else
        (let held = receive_value this msg_sender msg_value bal
         in case onlyOwner msg_sender s of
              Some e \<Rightarrow> Inl e
            | None \<Rightarrow>
                (case sum_loop params 0 0 of
                   Inl e \<Rightarrow> Inl e
                 | Inr totalAmount \<Rightarrow>
                     if unat totalAmount \<le> held this
                     then transfer_loop accepts this params 0 held
                     else Inl (Revert ''There are not enough funds stored in the smart contract''))))"

subsection \<open>The token path\<close>

record TokenInvoiceParams =
  tip_token :: uint16
  tip_receiver :: address
  tip_sender :: address
  tip_amount :: uint256

text \<open>
  \<open>IERC20.transferFrom\<close> belongs to the token contracts, which are not part of the
  repository: it is a parameter.  Given the token's address, the caller (the executor),
  \<open>from\<close>, \<open>to\<close> and the amount, a call on the token ledger \<open>'w\<close> either fails or
  returns a \<open>bool\<close> and the new ledger.  The executor does not read the \<open>bool\<close>.
\<close>

type_synonym 'w IERC20 = "address \<Rightarrow> address \<Rightarrow> address \<Rightarrow> address \<Rightarrow> uint256 \<Rightarrow> 'w \<Rightarrow> error + (bool \<times> 'w)"

function erc20_loop :: "'w IERC20 \<Rightarrow> address \<Rightarrow> BulkWithdraw \<Rightarrow> TokenInvoiceParams list \<Rightarrow> uint16 \<Rightarrow> 'w \<Rightarrow> error + 'w" where
  "erc20_loop transferFrom this s params i w =
     (if unat i < length params then
        (case transferFrom (tokens s (tip_token (params ! unat i))) this
                (tip_sender (params ! unat i)) (tip_receiver (params ! unat i))
                (tip_amount (params ! unat i)) w of
           Inl e \<Rightarrow> Inl e
         | Inr (ok, w') \<Rightarrow>
             if i = 0xFFFF then Inl (Panic 0x11)
             else erc20_loop transferFrom this s params (i + 1) w')
      else Inr w)"
  by pat_completeness auto
termination
proof (relation "measure (\<lambda>(transferFrom, this, s, params, i, w). 65536 - unat i)")
  show "wf (measure (\<lambda>(transferFrom :: 'w IERC20, this :: address, s :: BulkWithdraw,
      params :: TokenInvoiceParams list, i :: uint16, w :: 'w). 65536 - unat i))"
    by simp
next
  fix transferFrom :: "'w IERC20" and this :: address and s :: BulkWithdraw
    and params :: "TokenInvoiceParams list" and i :: uint16 and w w' :: 'w
  assume "i \<noteq> 0xFFFF"
  then have "unat i \<noteq> 65535"
    by (simp add: word_unat_eq_iff)
  moreover have "unat i < 65536"
    using unsigned_less [of i] by simp
  ultimately have "unat i + unat (1 :: uint16) < 2 ^ LENGTH(16)"
    by simp
  then have "unat (i + 1) = unat i + unat (1 :: uint16)"
    by (simp only: unat_add_lem)
  then have "unat (i + 1) = Suc (unat i)"
    by simp
  moreover have "unat i < 65536"
    using unsigned_less [of i] by simp
  ultimately show "((transferFrom, this, s, params, i + 1, w'), (transferFrom, this, s, params, i, w))
      \<in> measure (\<lambda>(transferFrom, this, s, params, i, w). 65536 - unat i)"
    by simp
qed

definition erc20sMultiOriginBulkTransferAmounts ::
  "'w IERC20 \<Rightarrow> address \<Rightarrow> address \<Rightarrow> TokenInvoiceParams list \<Rightarrow> BulkWithdraw \<Rightarrow> 'w \<Rightarrow> error + 'w" where
  "erc20sMultiOriginBulkTransferAmounts transferFrom this msg_sender params s w =
     (case onlyOwner msg_sender s of
        Some e \<Rightarrow> Inl e
      | None \<Rightarrow> erc20_loop transferFrom this s params 0 w)"

declare getTokenByAddress_loop.simps [simp del]
declare sum_loop.simps [simp del]
declare transfer_loop.simps [simp del]
declare erc20_loop.simps [simp del]

section \<open>The off-ledger module (class BulkWithdraw)\<close>

subsection \<open>Data of the module\<close>

record Wallet =
  coinType :: nat
  account :: nat
  change :: nat
  index :: nat

record Config =
  chainId :: nat
  providerURL :: string
  contract :: string
  ownerWallet :: Wallet

record CustomError =
  code :: string
  message :: string

record SendingInvoice =
  si_amount :: int
  si_receiver :: string

text \<open>The object pushed on \<open>invoices\<close> by \<open>processTokenInvoices\<close>.\<close>

record TokenInvoice =
  ti_token :: nat
  ti_sender :: string
  ti_receiver :: string
  ti_amount :: int

record SendingTokenInvoice =
  wallet :: Wallet
  tokenAddress :: string
  sti_amount :: int
  sti_receiver :: string

text \<open>
  The two writes the module can send to the ledger, each with the address of the signer
  it is connected to; the native one also carries the value and the nonce of its
  overrides.
\<close>

datatype ledger_call =
  Call_etherBulkTransferAmounts string "SendingInvoice list" int nat
| Call_erc20sMultiOriginBulkTransferAmounts string "TokenInvoice list"

datatype thrown = Error string | CallException ledger_call

text \<open>
  What lies outside the module is a parameter.  \<open>Provider\<close> holds the ledger's answers
  to the read queries (the contract's \<open>getTokenByAddress\<close>, a token's \<open>balanceOf\<close>
  and \<open>allowance\<close>, the native balance and the transaction count of an address) and
  whether it accepts a write.  \<open>HDWallet\<close> is the key-management provider: it gives
  the address of the key derived for a wallet reference, and a signer is represented by
  that address.
\<close>

record Provider =
  contract_getTokenByAddress :: "string \<Rightarrow> nat"
  erc20_balanceOf :: "string \<Rightarrow> string \<Rightarrow> int"
  erc20_allowance :: "string \<Rightarrow> string \<Rightarrow> string \<Rightarrow> int"
  getBalance :: "string \<Rightarrow> int"
  getTransactionCount :: "string \<Rightarrow> nat"
  accepted :: "ledger_call \<Rightarrow> bool"

type_synonym HDWallet = "Wallet \<Rightarrow> string"

record Module =
  config :: Config
  provider :: Provider

definition getEtherSigner :: "Module \<Rightarrow> HDWallet \<Rightarrow> Wallet \<Rightarrow> string" where
  "getEtherSigner this hdWallet w = hdWallet w"

text \<open>A JavaScript number that is a natural number below \<open>10^21\<close> prints in decimal.\<close>

fun decimal :: "nat \<Rightarrow> string" where
  "decimal n =
     (if n < 10 then [''0123456789'' ! n]
      else decimal (n div 10) @ [''0123456789'' ! (n mod 10)])"

declare decimal.simps [simp del]

subsection \<open>The three checks\<close>

definition checkTokenExistInContract :: "Module \<Rightarrow> string \<Rightarrow> bool" where
  "checkTokenExistInContract this tokenAddress' =
     (let tokenId' = contract_getTokenByAddress (provider this) tokenAddress'
      in if tokenId' \<noteq> 0 then True else False)"

definition checkWalletAllowance :: "Module \<Rightarrow> string \<Rightarrow> string \<Rightarrow> int \<Rightarrow> bool" where
  "checkWalletAllowance this walletAddress tokenAddress' amount =
     (let allowance = erc20_allowance (provider this) tokenAddress' walletAddress (contract (config this))
      in allowance > amount)"

definition checkWalletTokenBalance :: "Module \<Rightarrow> string \<Rightarrow> string \<Rightarrow> int \<Rightarrow> bool" where
  "checkWalletTokenBalance this walletAddress tokenAddress' amount =
     (let balance = erc20_balanceOf (provider this) tokenAddress' walletAddress
      in balance > amount)"

subsection \<open>processInvoices\<close>

text \<open>The loop \<open>for (const invoice of sendingInvoices) totalAmount += invoice.amount\<close>.\<close>

fun sumInvoices :: "int \<Rightarrow> SendingInvoice list \<Rightarrow> int" where
  "sumInvoices totalAmount [] = totalAmount"
| "sumInvoices totalAmount (invoice # rest) = sumInvoices (totalAmount + si_amount invoice) rest"

text \<open>
  The result of a method is what it returns or throws, together with the writes it
  sent to the ledger, in order.
\<close>

definition processInvoices ::
  "Module \<Rightarrow> HDWallet \<Rightarrow> int \<Rightarrow> SendingInvoice list \<Rightarrow> (thrown + unit) \<times> ledger_call list" where
  "processInvoices this hdWallet amount sendingInvoices =
     (let signer = getEtherSigner this hdWallet (ownerWallet (config this));
          totalAmount = sumInvoices 0 sendingInvoices;
          contractBalance = getBalance (provider this) (contract (config this))
      in if totalAmount > contractBalance + amount
         then (Inl (Error ''Insufficient funds in contract to process invoices''), [])
         else
           (let call = Call_etherBulkTransferAmounts signer sendingInvoices amount
                         (getTransactionCount (provider this) signer)
            in if accepted (provider this) call then (Inr (), [call])
               else (Inl (CallException call), [call])))"

subsection \<open>processTokenInvoices\<close>

text \<open>
  The loop over \<open>sendingTokenInvoices\<close>, with the two arrays it appends to:
  \<open>errors\<close> and \<open>invoices\<close>.  The \<open>continue\<close> after a failed existence check
  leaves both checks and the \<open>push\<close> on \<open>invoices\<close> out.
\<close>

fun validateLoop ::
  "Module \<Rightarrow> HDWallet \<Rightarrow> SendingTokenInvoice list \<Rightarrow> CustomError list \<Rightarrow> TokenInvoice list
     \<Rightarrow> CustomError list \<times> TokenInvoice list" where
  "validateLoop this hdWallet [] errors invoices = (errors, invoices)"
| "validateLoop this hdWallet (invoice # rest) errors invoices =
     (let sender = getEtherSigner this hdWallet (wallet invoice)
      in if \<not> checkTokenExistInContract this (tokenAddress invoice)
         then validateLoop this hdWallet rest
                (errors @ [\<lparr>code = ''TOKEN_NOT_IN_CONTRACT'',
                            message = ''Token '' @ tokenAddress invoice @ '' is not in the contract.''\<rparr>])
                invoices
         else
           (let errors1 =
                  (if \<not> checkWalletTokenBalance this sender (tokenAddress invoice) (sti_amount invoice)
                   then errors @ [\<lparr>code = ''INSUFFICIENT_BALANCE'',
                                    message = ''Insufficient balance in wallet ''
                                      @ decimal (account (wallet invoice)) @ '' for token ''
                                      @ tokenAddress invoice @ ''.''\<rparr>]
                   else errors);
                errors2 =
                  (if \<not> checkWalletAllowance this sender (tokenAddress invoice) (sti_amount invoice)
                   then errors1 @ [\<lparr>code = ''INSUFFICIENT_ALLOWANCE'',
                                     message = ''Insufficient allowance for wallet ''
                                       @ decimal (account (wallet invoice)) @ '' to contract.''\<rparr>]
                   else errors1)
            in validateLoop this hdWallet rest errors2
                 (invoices @ [\<lparr>ti_token = contract_getTokenByAddress (provider this) (tokenAddress invoice),
                                ti_sender = sender,
                                ti_receiver = sti_receiver invoice,
                                ti_amount = sti_amount invoice\<rparr>])))"

definition processTokenInvoices ::
  "Module \<Rightarrow> HDWallet \<Rightarrow> SendingTokenInvoice list \<Rightarrow> (thrown + CustomError list) \<times> ledger_call list" where
  "processTokenInvoices this hdWallet sendingTokenInvoices =
     (case validateLoop this hdWallet sendingTokenInvoices [] [] of
        (errors, invoices) \<Rightarrow>
          if length errors > 0 then (Inr errors, [])
          else
            (let signer = getEtherSigner this hdWallet (ownerWallet (config this));
                 call = Call_erc20sMultiOriginBulkTransferAmounts signer invoices
             in if accepted (provider this) call then (Inr errors, [call])
                else (Inl (CallException call), [call])))"

section \<open>Invariants and readings of the specification\<close>

text \<open>
  \<open>registry n s\<close>: the counter of \<open>s\<close> holds \<open>n\<close> and the slots of the ids
  \<open>n + 1, \<dots>, 65536\<close> (the last one is slot \<open>0\<close>, where the 16-bit id wraps) are
  still unwritten.
\<close>

definition registry :: "nat \<Rightarrow> BulkWithdraw \<Rightarrow> bool" where
  "registry n s = (unat (tokenId s) = n \<and> (\<forall>k. n < k \<and> k \<le> 65536 \<longrightarrow> tokens s (of_nat k) = 0))"

text \<open>The summed amounts of a native batch, as a number (no wrap-around).\<close>

definition invoice_total :: "InvoiceParams list \<Rightarrow> nat" where
  "invoice_total params = sum_list (map (\<lambda>p. unat (ip_amount p)) params)"

text \<open>
  The token path in the words of the specification: for each invoice in order, the token
  id is resolved by \<open>getTokenById\<close> and a third-party transfer moves the amount from
  the sender to the receiver; a transfer that fails, by reverting or by returning
  \<open>false\<close>, aborts the batch.
\<close>

fun spec_distributeTokens :: "'w IERC20 \<Rightarrow> address \<Rightarrow> BulkWithdraw \<Rightarrow> TokenInvoiceParams list \<Rightarrow> 'w \<Rightarrow> error + 'w" where
  "spec_distributeTokens transferFrom this s [] w = Inr w"
| "spec_distributeTokens transferFrom this s (p # rest) w =
     (case getTokenById s (tip_token p) of
        Inl e \<Rightarrow> Inl e
      | Inr tokenAddr \<Rightarrow>
          (case transferFrom tokenAddr this (tip_sender p) (tip_receiver p) (tip_amount p) w of
             Inl e \<Rightarrow> Inl e
           | Inr (ok, w') \<Rightarrow>
               if ok then spec_distributeTokens transferFrom this s rest w'
               else Inl (Revert [])))"

text \<open>
  Two token contracts to run the token path on, over a ledger of balances per token and
  holder.  Both fail a call to the zero address, where no contract lives.  When the
  sender holds less than the amount, \<open>revertingToken\<close> reverts, as the ERC20 of
  OpenZeppelin does, and \<open>falseReturningToken\<close> returns \<open>false\<close> and changes
  nothing, as the ERC-20 interface allows.
\<close>

type_synonym token_ledger = "address \<Rightarrow> address \<Rightarrow> nat"

definition move_tokens :: "address \<Rightarrow> address \<Rightarrow> address \<Rightarrow> nat \<Rightarrow> token_ledger \<Rightarrow> token_ledger" where
  "move_tokens tokenAddr from to n w =
     (let b1 = (w tokenAddr)(from := w tokenAddr from - n)
      in w(tokenAddr := b1(to := b1 to + n)))"

definition revertingToken :: "token_ledger IERC20" where
  "revertingToken tokenAddr spender from to amt w =
     (if tokenAddr = 0 then Inl (Revert [])
      else if w tokenAddr from < unat amt then Inl (Revert ''ERC20: transfer amount exceeds balance'')
      else Inr (True, move_tokens tokenAddr from to (unat amt) w))"

definition falseReturningToken :: "token_ledger IERC20" where
  "falseReturningToken tokenAddr spender from to amt w =
     (if tokenAddr = 0 then Inl (Revert [])
      else if w tokenAddr from < unat amt then Inr (False, w)
      else Inr (True, move_tokens tokenAddr from to (unat amt) w))"

text \<open>
  Validation in the words of the specification: the codes recorded for one invoice.  An
  unregistered token records \<open>TOKEN_NOT_IN_CONTRACT\<close> and nothing else; otherwise
  the balance check and then the allowance check each record their code when the queried
  value does not strictly exceed the amount.
\<close>

definition spec_invoice_codes :: "Module \<Rightarrow> HDWallet \<Rightarrow> SendingTokenInvoice \<Rightarrow> string list" where
  "spec_invoice_codes this hdWallet invoice =
     (if contract_getTokenByAddress (provider this) (tokenAddress invoice) = 0
      then [''TOKEN_NOT_IN_CONTRACT'']
      else
        (if erc20_balanceOf (provider this) (tokenAddress invoice) (hdWallet (wallet invoice))
              > sti_amount invoice
         then [] else [''INSUFFICIENT_BALANCE''])
        @ (if erc20_allowance (provider this) (tokenAddress invoice) (hdWallet (wallet invoice))
                (contract (config this)) > sti_amount invoice
           then [] else [''INSUFFICIENT_ALLOWANCE'']))"

text \<open>The on-ledger invoice the module builds from an invoice it was given.\<close>

definition ledger_invoice :: "Module \<Rightarrow> HDWallet \<Rightarrow> SendingTokenInvoice \<Rightarrow> TokenInvoice" where
  "ledger_invoice this hdWallet invoice =
     \<lparr>ti_token = contract_getTokenByAddress (provider this) (tokenAddress invoice),
      ti_sender = hdWallet (wallet invoice),
      ti_receiver = sti_receiver invoice,
      ti_amount = sti_amount invoice\<rparr>"

section \<open>Machine arithmetic\<close>

lemma unat_uint16_less: "unat (i::uint16) < 65536"
  using unsigned_less [of i] by simp

lemma unat_uint16_Suc: "(i::uint16) \<noteq> 0xFFFF \<Longrightarrow> unat (i + 1) = Suc (unat i)"
proof -
  assume "i \<noteq> 0xFFFF"
  then have "unat i \<noteq> 65535"
    by (simp add: word_unat_eq_iff)
  with unat_uint16_less [of i] have "unat i + unat (1 :: uint16) < 2 ^ LENGTH(16)"
    by simp
  then have "unat (i + 1) = unat i + unat (1 :: uint16)"
    by (simp only: unat_add_lem)
  then show ?thesis by simp
qed

lemma unat_ucast_uint16: "unat (ucast (i :: uint16) :: uint256) = unat i"
proof -
  have "unat i < 2 ^ 256"
    using unat_uint16_less [of i] by simp
  then show ?thesis
    by (simp add: unsigned_ucast_eq take_bit_nat_eq_self)
qed

lemma ucast_uint16_less: "((ucast (i :: uint16) :: uint256) < c) = (unat i < unat c)"
  by (simp add: word_less_nat_alt unat_ucast_uint16)

lemma unat_ucast_uint256: "unat (ucast (c :: uint256) :: uint16) = unat c mod 65536"
  by (simp add: unsigned_ucast_eq take_bit_eq_mod)

lemma unat_uint256_Suc: "unat (c :: uint256) \<le> 65536 \<Longrightarrow> unat (c + 1) = Suc (unat c)"
proof -
  assume "unat c \<le> 65536"
  then have "unat c + unat (1 :: uint256) < 2 ^ LENGTH(256)"
    by simp
  then have "unat (c + 1) = unat c + unat (1 :: uint256)"
    by (simp only: unat_add_lem)
  then show ?thesis by simp
qed

lemma slot_eq_iff:
  "0 < k \<Longrightarrow> k \<le> 65536 \<Longrightarrow> 0 < m \<Longrightarrow> m \<le> 65536 \<Longrightarrow> ((of_nat k :: uint16) = of_nat m) = (k = m)"
proof -
  assume a: "0 < k" "k \<le> 65536" "0 < m" "m \<le> 65536"
  have "((of_nat k :: uint16) = of_nat m) = (k mod 65536 = m mod 65536)"
    by (simp add: word_of_nat_eq_iff take_bit_eq_mod)
  also have "\<dots> = (k = m)"
  proof (cases "k = 65536")
    case True
    then show ?thesis using a by (cases "m = 65536") auto
  next
    case False
    then show ?thesis using a by (cases "m = 65536") auto
  qed
  finally show ?thesis .
qed

lemma ucast_counter: "unat (c :: uint256) = n \<Longrightarrow> (ucast c :: uint16) = of_nat n"
  by (simp add: word_unat_eq_iff unat_ucast_uint256 unat_of_nat)

section \<open>The registry after a sequence of registrations\<close>

lemma registry_fresh: "registry 0 (constructor_BulkWithdraw deployer)"
  by (simp add: registry_def constructor_BulkWithdraw_def)

lemma addToken_registry:
  assumes "registry n s" and "n < 65536" and "owner s = msg_sender"
  shows "addToken msg_sender token s =
           Inr (s\<lparr>tokenId := tokenId s + 1, tokens := (tokens s)(of_nat (Suc n) := token)\<rparr>,
                TokenAdded (of_nat (Suc n)))"
    and "registry (Suc n) (s\<lparr>tokenId := tokenId s + 1, tokens := (tokens s)(of_nat (Suc n) := token)\<rparr>)"
proof -
  from assms have n: "unat (tokenId s) = n" and z: "tokens s (of_nat (Suc n)) = 0"
    by (simp_all add: registry_def del: of_nat_Suc)
  from n assms(2) have c: "unat (tokenId s + 1) = Suc n"
    by (simp add: unat_uint256_Suc)
  then have u: "(ucast (tokenId s + 1) :: uint16) = of_nat (Suc n)"
    by (rule ucast_counter)
  show "addToken msg_sender token s =
           Inr (s\<lparr>tokenId := tokenId s + 1, tokens := (tokens s)(of_nat (Suc n) := token)\<rparr>,
                TokenAdded (of_nat (Suc n)))"
    using assms(3) z u by (simp add: addToken_def onlyOwner_def Let_def del: of_nat_Suc)
  have "\<forall>k. Suc n < k \<and> k \<le> 65536 \<longrightarrow> ((tokens s)(of_nat (Suc n) := token)) (of_nat k) = 0"
  proof (intro allI impI)
    fix k assume k: "Suc n < k \<and> k \<le> 65536"
    with assms(2) have "(of_nat k :: uint16) \<noteq> of_nat (Suc n)"
      by (simp add: slot_eq_iff del: of_nat_Suc)
    moreover from k assms(1) have "tokens s (of_nat k) = 0"
      by (simp add: registry_def)
    ultimately show "((tokens s)(of_nat (Suc n) := token)) (of_nat k) = 0"
      by (simp del: of_nat_Suc)
  qed
  with c show "registry (Suc n) (s\<lparr>tokenId := tokenId s + 1, tokens := (tokens s)(of_nat (Suc n) := token)\<rparr>)"
    by (simp add: registry_def del: of_nat_Suc)
qed


lemma addTokens_registry:
  "registry n s \<Longrightarrow> owner s = msg_sender \<Longrightarrow> n + length as \<le> 65536 \<Longrightarrow>
   \<exists>s'. addTokens msg_sender as s =
          Inr (s', map (\<lambda>k. TokenAdded (of_nat k)) [Suc n ..< Suc (n + length as)])
      \<and> registry (n + length as) s' \<and> owner s' = msg_sender
      \<and> (\<forall>k. 0 < k \<and> k \<le> 65536 \<longrightarrow>
            tokens s' (of_nat k) =
              (if n < k \<and> k \<le> n + length as then as ! (k - Suc n) else tokens s (of_nat k)))"
proof (induction as arbitrary: n s)
  case Nil
  then show ?case by auto
next
  case (Cons a as)
  let ?s1 = "s\<lparr>tokenId := tokenId s + 1, tokens := (tokens s)(of_nat (Suc n) := a)\<rparr>"
  from Cons.prems have n: "n < 65536" by simp
  have step: "addToken msg_sender a s = Inr (?s1, TokenAdded (of_nat (Suc n)))"
    using Cons.prems(1) n Cons.prems(2) by (rule addToken_registry(1))
  have reg1: "registry (Suc n) ?s1"
    using Cons.prems(1) n Cons.prems(2) by (rule addToken_registry(2))
  have own1: "owner ?s1 = msg_sender"
    using Cons.prems(2) by simp
  have len1: "Suc n + length as \<le> 65536"
    using Cons.prems(3) by simp
  from Cons.IH [OF reg1 own1 len1] obtain s' where
    run: "addTokens msg_sender as ?s1 =
            Inr (s', map (\<lambda>k. TokenAdded (of_nat k)) [Suc (Suc n) ..< Suc (Suc n + length as)])"
    and reg': "registry (Suc n + length as) s'" and own': "owner s' = msg_sender"
    and tok': "\<forall>k. 0 < k \<and> k \<le> 65536 \<longrightarrow>
            tokens s' (of_nat k) =
              (if Suc n < k \<and> k \<le> Suc n + length as then as ! (k - Suc (Suc n))
               else tokens ?s1 (of_nat k))"
    by blast
  have "Suc n < Suc (Suc n + length as)"
    by simp
  then have "[Suc n ..< Suc (Suc n + length as)] = Suc n # [Suc (Suc n) ..< Suc (Suc n + length as)]"
    by (rule upt_conv_Cons)
  moreover have "Suc (n + length (a # as)) = Suc (Suc n + length as)"
    by simp
  ultimately have ev: "[Suc n ..< Suc (n + length (a # as))] = Suc n # [Suc (Suc n) ..< Suc (Suc n + length as)]"
    by (simp only:)
  have "addTokens msg_sender (a # as) s =
          Inr (s', map (\<lambda>k. TokenAdded (of_nat k)) [Suc n ..< Suc (n + length (a # as))])"
    unfolding ev using step run by (simp del: of_nat_Suc)
  moreover have "registry (n + length (a # as)) s'"
    using reg' by simp
  moreover have "\<forall>k. 0 < k \<and> k \<le> 65536 \<longrightarrow>
            tokens s' (of_nat k) =
              (if n < k \<and> k \<le> n + length (a # as) then (a # as) ! (k - Suc n)
               else tokens s (of_nat k))"
  proof (intro allI impI)
    fix k :: nat assume k: "0 < k \<and> k \<le> 65536"
    then have eq: "((of_nat k :: uint16) = of_nat (Suc n)) = (k = Suc n)"
      using n by (simp add: slot_eq_iff del: of_nat_Suc)
    from k tok' have t: "tokens s' (of_nat k) =
              (if Suc n < k \<and> k \<le> Suc n + length as then as ! (k - Suc (Suc n))
               else tokens ?s1 (of_nat k))"
      by blast
    show "tokens s' (of_nat k) =
              (if n < k \<and> k \<le> n + length (a # as) then (a # as) ! (k - Suc n)
               else tokens s (of_nat k))"
    proof (cases "k = Suc n")
      case True
      then show ?thesis using t by (simp del: of_nat_Suc)
    next
      case False
      then have "(of_nat k :: uint16) \<noteq> of_nat (Suc n)"
        using eq by simp
      then have s1: "tokens ?s1 (of_nat k) = tokens s (of_nat k)"
        by (simp del: of_nat_Suc)
      show ?thesis
      proof (cases "Suc n < k \<and> k \<le> Suc n + length as")
        case True
        then have "(a # as) ! (k - Suc n) = as ! (k - Suc (Suc n))"
          by (simp add: nth_Cons')
        moreover from True have "n < k \<and> k \<le> n + length (a # as)"
          by simp
        ultimately show ?thesis using True t by (simp del: of_nat_Suc)
      next
        case F: False
        with False have nb: "\<not> (n < k \<and> k \<le> n + length (a # as))"
          by auto
        have "tokens s' (of_nat k) = tokens ?s1 (of_nat k)"
          unfolding t using F by (rule if_not_P)
        with s1 have "tokens s' (of_nat k) = tokens s (of_nat k)"
          by (simp only:)
        with nb show ?thesis by (simp only: if_False)
      qed
    qed
  qed
  ultimately show ?case using own' by blast
qed

lemma addTokens_fresh:
  assumes "length as \<le> 65536"
  shows "\<exists>s. addTokens d as (constructor_BulkWithdraw d) =
            Inr (s, map (\<lambda>k. TokenAdded (of_nat k)) [1 ..< Suc (length as)])
      \<and> unat (tokenId s) = length as \<and> owner s = d
      \<and> (\<forall>k. 0 < k \<and> k \<le> 65536 \<longrightarrow>
            tokens s (of_nat k) = (if k \<le> length as then as ! (k - 1) else 0))"
proof -
  have "registry 0 (constructor_BulkWithdraw d)"
    by (rule registry_fresh)
  moreover have "owner (constructor_BulkWithdraw d) = d"
    by (simp add: constructor_BulkWithdraw_def)
  moreover have "0 + length as \<le> 65536"
    using assms by simp
  ultimately obtain s where
    "addTokens d as (constructor_BulkWithdraw d) =
        Inr (s, map (\<lambda>k. TokenAdded (of_nat k)) [Suc 0 ..< Suc (0 + length as)])"
    "registry (0 + length as) s" "owner s = d"
    "\<forall>k. 0 < k \<and> k \<le> 65536 \<longrightarrow>
            tokens s (of_nat k) =
              (if 0 < k \<and> k \<le> 0 + length as then as ! (k - Suc 0)
               else tokens (constructor_BulkWithdraw d) (of_nat k))"
    using addTokens_registry [of 0 "constructor_BulkWithdraw d" d as] by blast
  then show ?thesis
    by (auto simp add: registry_def constructor_BulkWithdraw_def)
qed


lemma lookup_none:
  "unat (tokenId s) \<le> 65535 \<Longrightarrow>
   \<forall>j. unat i \<le> unat j \<and> unat j < unat (tokenId s) \<longrightarrow> tokens s j \<noteq> token \<Longrightarrow>
   getTokenByAddress_loop s token i = Inr 0"
proof (induction s token i rule: getTokenByAddress_loop.induct)
  case (1 s token i)
  show ?case
  proof (cases "unat i < unat (tokenId s)")
    case False
    then show ?thesis
      by (subst getTokenByAddress_loop.simps) (simp add: ucast_uint16_less)
  next
    case True
    with "1.prems"(2) have ne: "tokens s i \<noteq> token"
      by simp
    from True "1.prems"(1) have top: "i \<noteq> 0xFFFF"
      by (auto simp add: word_unat_eq_iff)
    have "\<forall>j. unat (i + 1) \<le> unat j \<and> unat j < unat (tokenId s) \<longrightarrow> tokens s j \<noteq> token"
      using "1.prems"(2) top by (simp add: unat_uint16_Suc)
    with "1.IH" True ne top "1.prems"(1) have "getTokenByAddress_loop s token (i + 1) = Inr 0"
      by (simp add: ucast_uint16_less)
    with True ne top show ?thesis
      by (subst getTokenByAddress_loop.simps) (simp add: ucast_uint16_less)
  qed
qed

lemma lookup_panic:
  "65536 \<le> unat (tokenId s) \<Longrightarrow>
   \<forall>j. unat i \<le> unat j \<longrightarrow> tokens s j \<noteq> token \<Longrightarrow>
   getTokenByAddress_loop s token i = Inl (Panic 0x11)"
proof (induction s token i rule: getTokenByAddress_loop.induct)
  case (1 s token i)
  from "1.prems"(1) unat_uint16_less [of i] have "unat i < unat (tokenId s)"
    by simp
  then have lt: "(ucast i :: uint256) < tokenId s"
    by (simp only: ucast_uint16_less)
  from "1.prems"(2) have ne: "tokens s i \<noteq> token"
    by simp
  show ?case
  proof (cases "i = 0xFFFF")
    case True
    with lt ne show ?thesis
      by (subst getTokenByAddress_loop.simps) simp
  next
    case False
    have "\<forall>j. unat (i + 1) \<le> unat j \<longrightarrow> tokens s j \<noteq> token"
      using "1.prems"(2) False by (simp add: unat_uint16_Suc)
    with "1.IH" lt ne False "1.prems"(1) have "getTokenByAddress_loop s token (i + 1) = Inl (Panic 0x11)"
      by simp
    with lt ne False show ?thesis
      by (subst getTokenByAddress_loop.simps) simp
  qed
qed

lemma lookup_found:
  "unat i \<le> unat r \<Longrightarrow> unat r < unat (tokenId s) \<Longrightarrow> tokens s r = token \<Longrightarrow>
   \<forall>j. unat i \<le> unat j \<and> unat j < unat r \<longrightarrow> tokens s j \<noteq> token \<Longrightarrow>
   getTokenByAddress_loop s token i = Inr r"
proof (induction s token i rule: getTokenByAddress_loop.induct)
  case (1 s token i)
  from "1.prems"(1,2) have lt: "unat i < unat (tokenId s)"
    by simp
  show ?case
  proof (cases "i = r")
    case True
    with lt "1.prems"(3) show ?thesis
      by (subst getTokenByAddress_loop.simps) (simp add: ucast_uint16_less)
  next
    case False
    with "1.prems"(1) have less: "unat i < unat r"
      by (simp add: word_unat_eq_iff)
    with "1.prems"(4) have ne: "tokens s i \<noteq> token"
      by simp
    from less unat_uint16_less [of r] have top: "i \<noteq> 0xFFFF"
      by (auto simp add: word_unat_eq_iff)
    have "\<forall>j. unat (i + 1) \<le> unat j \<and> unat j < unat r \<longrightarrow> tokens s j \<noteq> token"
      using "1.prems"(4) top by (simp add: unat_uint16_Suc)
    moreover have "unat (i + 1) \<le> unat r"
      using less top by (simp add: unat_uint16_Suc)
    ultimately have "getTokenByAddress_loop s token (i + 1) = Inr r"
      using "1.IH" lt ne top "1.prems"(2,3) by (simp add: ucast_uint16_less)
    with lt ne top show ?thesis
      by (subst getTokenByAddress_loop.simps) (simp add: ucast_uint16_less)
  qed
qed


lemma addTokens_append:
  "addTokens d (xs @ ys) s =
     (case addTokens d xs s of
        Inl e \<Rightarrow> Inl e
      | Inr (s', evs) \<Rightarrow>
          (case addTokens d ys s' of
             Inl e \<Rightarrow> Inl e
           | Inr (s'', evs') \<Rightarrow> Inr (s'', evs @ evs')))"
  by (induction xs arbitrary: s) (auto split: sum.splits prod.splits)

lemma uint16_as_slot: "\<exists>k. 0 < k \<and> k \<le> 65536 \<and> (j :: uint16) = of_nat k"
proof (cases "j = 0")
  case True
  then have "0 < (65536::nat) \<and> (65536::nat) \<le> 65536 \<and> j = of_nat 65536"
    by simp
  then show ?thesis by blast
next
  case False
  then have "0 < unat j"
    by (simp add: unat_gt_0)
  moreover have "unat j \<le> 65536"
    using unat_uint16_less [of j] by simp
  moreover have "j = of_nat (unat j)"
    by simp
  ultimately show ?thesis by blast
qed

lemma registry_full:
  assumes "n = 65536"
  shows "\<exists>s. addTokens d (replicate n a) (constructor_BulkWithdraw d) =
                Inr (s, map (\<lambda>k. TokenAdded (of_nat k)) [1 ..< Suc n])
           \<and> unat (tokenId s) = 65536 \<and> owner s = d \<and> (\<forall>j. tokens s j = a)"
proof -
  have "length (replicate n a) \<le> 65536"
    using assms by simp
  from addTokens_fresh [OF this, of d] obtain s where
    run: "addTokens d (replicate n a) (constructor_BulkWithdraw d) =
            Inr (s, map (\<lambda>k. TokenAdded (of_nat k)) [1 ..< Suc (length (replicate n a))])"
    and cnt: "unat (tokenId s) = length (replicate n a)" and own: "owner s = d"
    and tok: "\<forall>k. 0 < k \<and> k \<le> 65536 \<longrightarrow>
            tokens s (of_nat k) = (if k \<le> length (replicate n a) then replicate n a ! (k - 1) else 0)"
    by blast
  have "\<forall>j. tokens s j = a"
  proof
    fix j :: uint16
    from uint16_as_slot [of j] obtain k where k: "0 < k" "k \<le> 65536" "j = of_nat k"
      by blast
    with tok have "tokens s j = (if k \<le> length (replicate n a) then replicate n a ! (k - 1) else 0)"
      by blast
    with k assms show "tokens s j = a"
      by simp
  qed
  with run cnt own assms show ?thesis
    by auto
qed

lemma addToken_full:
  assumes "unat (tokenId s) = 65536" and "owner s = d" and "tokens s 1 \<noteq> 0"
  shows "addToken d a s = Inl (Revert ''Token already set!'')"
proof -
  from assms(1) have "unat (tokenId s + 1) = Suc 65536"
    by (simp add: unat_uint256_Suc)
  then have "(ucast (tokenId s + 1) :: uint16) = of_nat (Suc 65536)"
    by (rule ucast_counter)
  then have "(ucast (tokenId s + 1) :: uint16) = 1"
    by simp
  with assms(2,3) show ?thesis
    by (simp add: addToken_def onlyOwner_def Let_def)
qed

text \<open>
  What holds of the round trip on a registry of at most 65535 tokens: the ids are
  assigned as \<open>1, 2, 3, \<dots>\<close> and \<open>getTokenById\<close> returns the address registered
  under each of them; \<open>getTokenByAddress\<close>, on distinct nonzero addresses, finds every
  token but the one registered last, for which it returns \<open>0\<close>.
\<close>

lemma registry_slots:
  assumes "length as \<le> 65535"
  shows "\<exists>s. addTokens d as (constructor_BulkWithdraw d) =
              Inr (s, map (\<lambda>k. TokenAdded (of_nat k)) [1 ..< Suc (length as)])
         \<and> unat (tokenId s) = length as \<and> owner s = d
         \<and> (\<forall>j. tokens s j = (if 0 < unat j \<and> unat j \<le> length as then as ! (unat j - 1) else 0))"
proof -
  from assms have "length as \<le> 65536"
    by simp
  from addTokens_fresh [OF this, of d] obtain s where
    run: "addTokens d as (constructor_BulkWithdraw d) =
            Inr (s, map (\<lambda>k. TokenAdded (of_nat k)) [1 ..< Suc (length as)])"
    and cnt: "unat (tokenId s) = length as" and own: "owner s = d"
    and tok: "\<forall>k. 0 < k \<and> k \<le> 65536 \<longrightarrow>
            tokens s (of_nat k) = (if k \<le> length as then as ! (k - 1) else 0)"
    by blast
  have "tokens s j = (if 0 < unat j \<and> unat j \<le> length as then as ! (unat j - 1) else 0)" for j
  proof (cases "j = 0")
    case True
    from tok have "0 < (65536::nat) \<and> (65536::nat) \<le> 65536 \<longrightarrow>
        tokens s (of_nat 65536) = (if 65536 \<le> length as then as ! (65536 - 1) else 0)"
      by (rule spec)
    with assms have "tokens s (of_nat 65536) = 0"
      by simp
    moreover have "(of_nat 65536 :: uint16) = 0"
      by simp
    ultimately have "tokens s 0 = 0"
      by (simp only:)
    with True show ?thesis
      by simp
  next
    case False
    then have pos: "0 < unat j"
      by (simp add: unat_gt_0)
    have "0 < unat j \<and> unat j \<le> 65536 \<longrightarrow>
        tokens s (of_nat (unat j)) = (if unat j \<le> length as then as ! (unat j - 1) else 0)"
      using tok by (rule spec)
    with pos unat_uint16_less [of j] show ?thesis
      by simp
  qed
  with run cnt own show ?thesis
    by blast
qed

lemma unat_slot: "k \<le> 65535 \<Longrightarrow> unat (of_nat k :: uint16) = k"
  by (simp add: unat_of_nat)

lemma registration_round_trip_by_id:
  assumes "length as \<le> 65535"
  shows "\<exists>s. addTokens d as (constructor_BulkWithdraw d) =
              Inr (s, map (\<lambda>k. TokenAdded (of_nat k)) [1 ..< Suc (length as)])
         \<and> (\<forall>k. 0 < k \<and> k \<le> length as \<longrightarrow> getTokenById s (of_nat k) = Inr (as ! (k - 1)))"
proof -
  from registry_slots [OF assms, of d] obtain s where
    run: "addTokens d as (constructor_BulkWithdraw d) =
            Inr (s, map (\<lambda>k. TokenAdded (of_nat k)) [1 ..< Suc (length as)])"
    and tok: "\<forall>j. tokens s j = (if 0 < unat j \<and> unat j \<le> length as then as ! (unat j - 1) else 0)"
    by blast
  have "getTokenById s (of_nat k) = Inr (as ! (k - 1))" if "0 < k \<and> k \<le> length as" for k
  proof -
    from that assms have u: "unat (of_nat k :: uint16) = k"
      by (simp add: unat_slot)
    with that have "(of_nat k :: uint16) \<noteq> 0"
      by auto
    moreover from tok u that have "tokens s (of_nat k) = as ! (k - 1)"
      by simp
    ultimately show ?thesis
      by (simp add: getTokenById_def)
  qed
  with run show ?thesis
    by blast
qed

lemma getTokenByAddress_off_by_one:
  assumes len: "length as \<le> 65535" and dist: "distinct as" and nz: "0 \<notin> set as"
  shows "\<exists>s evs. addTokens d as (constructor_BulkWithdraw d) = Inr (s, evs)
         \<and> (\<forall>k. 0 < k \<and> k < length as \<longrightarrow> getTokenByAddress s (as ! (k - 1)) = Inr (of_nat k))
         \<and> (as \<noteq> [] \<longrightarrow> getTokenByAddress s (last as) = Inr 0)"
proof -
  from registry_slots [OF len, of d] obtain s where
    run: "addTokens d as (constructor_BulkWithdraw d) =
            Inr (s, map (\<lambda>k. TokenAdded (of_nat k)) [1 ..< Suc (length as)])"
    and cnt: "unat (tokenId s) = length as"
    and tok: "\<forall>j. tokens s j = (if 0 < unat j \<and> unat j \<le> length as then as ! (unat j - 1) else 0)"
    by blast
  have other: "tokens s j \<noteq> as ! (k - 1)" if "0 < k" "k \<le> length as" "unat j < k" for j k
  proof (cases "0 < unat j")
    case False
    with tok have "tokens s j = 0"
      by simp
    moreover have "as ! (k - 1) \<noteq> 0"
    proof -
      from that have "k - 1 < length as"
        by simp
      then have "as ! (k - 1) \<in> set as"
        by (rule nth_mem)
      with nz show ?thesis
        by auto
    qed
    ultimately show ?thesis
      by simp
  next
    case True
    with tok that have "tokens s j = as ! (unat j - 1)"
      by simp
    moreover from True that dist have "as ! (unat j - 1) \<noteq> as ! (k - 1)"
      by (simp add: nth_eq_iff_index_eq)
    ultimately show ?thesis
      by simp
  qed
  have found: "getTokenByAddress s (as ! (k - 1)) = Inr (of_nat k)" if "0 < k \<and> k < length as" for k
  proof -
    from that len have u: "unat (of_nat k :: uint16) = k"
      by (simp add: unat_slot)
    have "unat (0 :: uint16) \<le> unat (of_nat k :: uint16)"
      by simp
    moreover from u that cnt have "unat (of_nat k :: uint16) < unat (tokenId s)"
      by simp
    moreover from tok u that have "tokens s (of_nat k) = as ! (k - 1)"
      by simp
    moreover have "\<forall>j. unat (0 :: uint16) \<le> unat j \<and> unat j < unat (of_nat k :: uint16)
        \<longrightarrow> tokens s j \<noteq> as ! (k - 1)"
      using other that u by simp
    ultimately have "getTokenByAddress_loop s (as ! (k - 1)) 0 = Inr (of_nat k)"
      by (rule lookup_found)
    then show ?thesis
      by (simp add: getTokenByAddress_def)
  qed
  have missed: "getTokenByAddress s (last as) = Inr 0" if "as \<noteq> []"
  proof -
    from that have l: "last as = as ! (length as - 1)" and pos: "0 < length as"
      by (simp_all add: last_conv_nth)
    from cnt len have "unat (tokenId s) \<le> 65535"
      by simp
    moreover have "\<forall>j. unat (0 :: uint16) \<le> unat j \<and> unat j < unat (tokenId s)
        \<longrightarrow> tokens s j \<noteq> last as"
      using other [of "length as"] pos cnt l by simp
    ultimately have "getTokenByAddress_loop s (last as) 0 = Inr 0"
      by (rule lookup_none)
    then show ?thesis
      by (simp add: getTokenByAddress_def)
  qed
  from run found missed show ?thesis
    by blast
qed

section \<open>Claims about the token registry\<close>

text \<open>
  C1 (registration round-trip; the code departs from it).  On a fresh registry owned by
  address \<open>1\<close>, registering the token \<open>0xAA\<close> assigns the id \<open>1\<close> and
  \<open>getTokenById 1\<close> returns \<open>0xAA\<close>, but \<open>getTokenByAddress 0xAA\<close> returns \<open>0\<close>:
  its loop runs over the ids \<open>0, \<dots>, tokenId.current() - 1\<close> and never reads the
  slot of the id assigned last.  The lemmas \<open>registration_round_trip_by_id\<close> and
  \<open>getTokenByAddress_off_by_one\<close> above give the general picture.
\<close>

theorem getTokenByAddress_misses_latest_token:
  "(case addToken 1 0xAA (constructor_BulkWithdraw 1) of
      Inl e \<Rightarrow> False
    | Inr (s, ev) \<Rightarrow>
        ev = TokenAdded 1 \<and> getTokenById s 1 = Inr 0xAA \<and> getTokenByAddress s 0xAA = Inr 0)"
  by (simp add: addToken_def onlyOwner_def constructor_BulkWithdraw_def getTokenById_def
      getTokenByAddress_def getTokenByAddress_loop.simps)

text \<open>
  C7, as stated, fails: after 65536 registrations of the token \<open>5\<close> the counter holds
  \<open>65536\<close> and every slot is written; the next call selects the slot
  \<open>uint16(65537) = 1\<close>, which is occupied, and the check \<open>Token already set!\<close> fires.
\<close>

theorem addToken_check_fires_after_65536:
  "addTokens 1 (replicate 65536 5 @ [5]) (constructor_BulkWithdraw 1) = Inl (Revert ''Token already set!'')"
proof -
  obtain s evs where run: "addTokens 1 (replicate 65536 5) (constructor_BulkWithdraw 1) = Inr (s, evs)"
    and cnt: "unat (tokenId s) = 65536" and own: "owner s = 1" and tok: "\<forall>j. tokens s j = 5"
    using registry_full [of 65536 1 5] by blast
  from tok have "tokens s 1 \<noteq> 0"
    by simp
  with cnt own have "addToken 1 5 s = Inl (Revert ''Token already set!'')"
    by (rule addToken_full)
  with run show ?thesis
    by (simp add: addTokens_append)
qed

text \<open>
  C7, amended: after fewer than 65535 registrations on a fresh registry (every one of
  them succeeds, with the ids \<open>1, 2, 3, \<dots>\<close> in order), the slot selected by the
  incremented counter is unoccupied and the next registration succeeds with the next id:
  the check does not fire while the ids stay within \<open>1, \<dots>, 65535\<close>.
\<close>

theorem addToken_slot_unoccupied:
  assumes "length as < 65535"
  shows "\<exists>s s'. addTokens d as (constructor_BulkWithdraw d) =
                   Inr (s, map (\<lambda>k. TokenAdded (of_nat k)) [1 ..< Suc (length as)])
           \<and> tokens s (ucast (tokenId s + 1)) = 0
           \<and> addToken d a s = Inr (s', TokenAdded (of_nat (Suc (length as))))"
proof -
  from assms have "0 + length as \<le> 65536"
    by simp
  with registry_fresh [of d] obtain s where
    run: "addTokens d as (constructor_BulkWithdraw d) =
            Inr (s, map (\<lambda>k. TokenAdded (of_nat k)) [Suc 0 ..< Suc (0 + length as)])"
    and reg: "registry (0 + length as) s" and own: "owner s = d"
    using addTokens_registry [of 0 "constructor_BulkWithdraw d" d as]
    by (auto simp add: constructor_BulkWithdraw_def)
  from reg have reg': "registry (length as) s"
    by simp
  from assms have lt: "length as < 65536"
    by simp
  let ?s' = "s\<lparr>tokenId := tokenId s + 1, tokens := (tokens s)(of_nat (Suc (length as)) := a)\<rparr>"
  have step: "addToken d a s = Inr (?s', TokenAdded (of_nat (Suc (length as))))"
    using reg' lt own by (rule addToken_registry(1))
  from reg' lt have "unat (tokenId s + 1) = Suc (length as)"
    by (simp add: registry_def unat_uint256_Suc)
  then have "(ucast (tokenId s + 1) :: uint16) = of_nat (Suc (length as))"
    by (rule ucast_counter)
  moreover from reg' lt have "tokens s (of_nat (Suc (length as))) = 0"
    by (simp add: registry_def del: of_nat_Suc)
  ultimately have "tokens s (ucast (tokenId s + 1)) = 0"
    by (simp only:)
  with run step show ?thesis
    by auto
qed

theorem addToken_slot_unoccupied_witness:
  "length [5, 6 :: address] < 65535 \<and>
   (\<exists>s s'. addTokens 1 [5, 6] (constructor_BulkWithdraw 1) = Inr (s, [TokenAdded 1, TokenAdded 2])
       \<and> tokens s (ucast (tokenId s + 1)) = 0
       \<and> addToken 1 7 s = Inr (s', TokenAdded 3))"
  using addToken_slot_unoccupied [of "[5, 6]" 1 7] by (simp add: upt_rec)

text \<open>
  C8, as stated, fails: with 65536 tokens registered, the lookup of the address \<open>7\<close>,
  which was never registered, does not return \<open>0\<close>: the \<open>uint16\<close> loop counter
  overflows and the call fails with \<open>Panic 0x11\<close>.
\<close>

theorem getTokenByAddress_panics_on_full_registry:
  "(case addTokens 1 (replicate 65536 5) (constructor_BulkWithdraw 1) of
      Inl e \<Rightarrow> Inl e
    | Inr (s, evs) \<Rightarrow> getTokenByAddress s 7) = Inl (Panic 0x11)"
proof -
  obtain s evs where run: "addTokens 1 (replicate 65536 5) (constructor_BulkWithdraw 1) = Inr (s, evs)"
    and cnt: "unat (tokenId s) = 65536" and tok: "\<forall>j. tokens s j = 5"
    using registry_full [of 65536 1 5] by blast
  from cnt have "65536 \<le> unat (tokenId s)"
    by simp
  moreover from tok have "\<forall>j. unat (0 :: uint16) \<le> unat j \<longrightarrow> tokens s j \<noteq> 7"
    by simp
  ultimately have "getTokenByAddress_loop s 7 0 = Inl (Panic 0x11)"
    by (rule lookup_panic)
  with run show ?thesis
    by (simp add: getTokenByAddress_def)
qed

text \<open>
  C8, amended: on a registry holding at most 65535 tokens, \<open>getTokenById 0\<close> fails with
  the argument error, \<open>getTokenById\<close> returns the zero address for every id above the
  ids assigned so far, and \<open>getTokenByAddress\<close> returns \<open>0\<close> for every address that
  was never registered.
\<close>

theorem lookup_failure_behaviour:
  assumes "length as \<le> 65535"
  shows "\<exists>s evs. addTokens d as (constructor_BulkWithdraw d) = Inr (s, evs)
      \<and> getTokenById s 0 = Inl (Revert ''id should not be 0'')
      \<and> (\<forall>id'. length as < unat id' \<longrightarrow> getTokenById s id' = Inr 0)
      \<and> (\<forall>a. a \<notin> set as \<longrightarrow> getTokenByAddress s a = Inr 0)"
proof -
  from assms have "length as \<le> 65536"
    by simp
  from addTokens_fresh [OF this, of d] obtain s where
    run: "addTokens d as (constructor_BulkWithdraw d) =
            Inr (s, map (\<lambda>k. TokenAdded (of_nat k)) [1 ..< Suc (length as)])"
    and cnt: "unat (tokenId s) = length as"
    and tok: "\<forall>k. 0 < k \<and> k \<le> 65536 \<longrightarrow>
            tokens s (of_nat k) = (if k \<le> length as then as ! (k - 1) else 0)"
    by blast
  have slot: "tokens s j = 0 \<or> tokens s j \<in> set as" for j
  proof -
    from uint16_as_slot [of j] obtain k where k: "0 < k" "k \<le> 65536" "j = of_nat k"
      by blast
    with tok have "tokens s j = (if k \<le> length as then as ! (k - 1) else 0)"
      by blast
    with k(1) show ?thesis
      by (cases "k \<le> length as") auto
  qed
  have zero: "tokens s 0 = 0"
  proof -
    from tok have "0 < (65536::nat) \<and> (65536::nat) \<le> 65536 \<longrightarrow>
        tokens s (of_nat 65536) = (if 65536 \<le> length as then as ! (65536 - 1) else 0)"
      by (rule spec)
    with assms have "tokens s (of_nat 65536) = 0"
      by simp
    moreover have "(of_nat 65536 :: uint16) = 0"
      by simp
    ultimately show ?thesis
      by (simp only:)
  qed
  have byId0: "getTokenById s 0 = Inl (Revert ''id should not be 0'')"
    by (simp add: getTokenById_def)
  have byId: "\<forall>id'. length as < unat id' \<longrightarrow> getTokenById s id' = Inr 0"
  proof (intro allI impI)
    fix id' :: uint16
    assume gt: "length as < unat id'"
    then have nz: "id' \<noteq> 0"
      by auto
    have "0 < unat id' \<and> unat id' \<le> 65536 \<longrightarrow>
        tokens s (of_nat (unat id')) = (if unat id' \<le> length as then as ! (unat id' - 1) else 0)"
      using tok by (rule spec)
    with gt unat_uint16_less [of id'] have "tokens s id' = 0"
      by simp
    with nz show "getTokenById s id' = Inr 0"
      by (simp add: getTokenById_def)
  qed
  have byAddr: "\<forall>a. a \<notin> set as \<longrightarrow> getTokenByAddress s a = Inr 0"
  proof (intro allI impI)
    fix a :: address
    assume new: "a \<notin> set as"
    show "getTokenByAddress s a = Inr 0"
    proof (cases "a = 0")
      case True
      with zero show ?thesis
        unfolding getTokenByAddress_def
        by (subst getTokenByAddress_loop.simps) simp
    next
      case False
      with new slot have "\<forall>j. unat (0 :: uint16) \<le> unat j \<and> unat j < unat (tokenId s) \<longrightarrow> tokens s j \<noteq> a"
        by metis
      moreover from cnt assms have "unat (tokenId s) \<le> 65535"
        by simp
      ultimately have "getTokenByAddress_loop s a 0 = Inr 0"
        by (rule lookup_none [rotated])
      then show ?thesis
        by (simp add: getTokenByAddress_def)
    qed
  qed
  from run byId0 byId byAddr show ?thesis
    by blast
qed

theorem lookup_failure_behaviour_witness:
  "length [5, 6 :: address] \<le> 65535 \<and>
   (\<exists>s evs. addTokens 1 [5, 6] (constructor_BulkWithdraw 1) = Inr (s, evs)
      \<and> getTokenById s 0 = Inl (Revert ''id should not be 0'')
      \<and> getTokenById s 3 = Inr 0
      \<and> getTokenByAddress s 7 = Inr 0)"
proof -
  have "length [5, 6 :: address] \<le> 65535"
    by simp
  from lookup_failure_behaviour [OF this, of 1] obtain s evs where
    "addTokens 1 [5, 6] (constructor_BulkWithdraw 1) = Inr (s, evs)"
    "getTokenById s 0 = Inl (Revert ''id should not be 0'')"
    "\<forall>id'. length [5, 6 :: address] < unat id' \<longrightarrow> getTokenById s id' = Inr 0"
    "\<forall>a. a \<notin> set [5, 6 :: address] \<longrightarrow> getTokenByAddress s a = Inr 0"
    by blast
  moreover from this have "getTokenById s 3 = Inr 0"
    by simp
  moreover from calculation have "getTokenByAddress s 7 = Inr 0"
    by simp
  ultimately show ?thesis
    by auto
qed

section \<open>The native-coin path\<close>

lemma unat_uint8_less: "unat (i::uint8) < 256"
  using unsigned_less [of i] by simp

lemma unat_uint8_Suc: "(i::uint8) \<noteq> 0xFF \<Longrightarrow> unat (i + 1) = Suc (unat i)"
proof -
  assume "i \<noteq> 0xFF"
  then have "unat i \<noteq> 255"
    by (simp add: word_unat_eq_iff)
  with unat_uint8_less [of i] have "unat i + unat (1 :: uint8) < 2 ^ LENGTH(8)"
    by simp
  then have "unat (i + 1) = unat i + unat (1 :: uint8)"
    by (simp only: unat_add_lem)
  then show ?thesis by simp
qed

lemma invoice_total_drop:
  "i < length params \<Longrightarrow>
   invoice_total (drop i params) = unat (ip_amount (params ! i)) + invoice_total (drop (Suc i) params)"
  by (simp add: invoice_total_def Cons_nth_drop_Suc [symmetric])

lemma sum_loop_long: "256 \<le> length params \<Longrightarrow> sum_loop params i totalAmount = Inl (Panic 0x11)"
proof (induction params i totalAmount rule: sum_loop.induct)
  case (1 params i totalAmount)
  from "1.prems" unat_uint8_less [of i] have lt: "unat i < length params"
    by simp
  show ?case
  proof (cases "2 ^ 256 \<le> unat totalAmount + unat (ip_amount (params ! unat i))")
    case True
    with lt show ?thesis
      by (subst sum_loop.simps) simp
  next
    case no: False
    show ?thesis
    proof (cases "i = 0xFF")
      case True
      with lt no show ?thesis
        by (subst sum_loop.simps) simp
    next
      case False
      with "1.IH" lt no "1.prems"
      have "sum_loop params (i + 1) (totalAmount + ip_amount (params ! unat i)) = Inl (Panic 0x11)"
        by simp
      with lt no False show ?thesis
        by (subst sum_loop.simps) simp
    qed
  qed
qed

lemma sum_loop_result:
  "sum_loop params i totalAmount = Inr r \<Longrightarrow> unat i \<le> length params \<Longrightarrow>
   unat r = unat totalAmount + invoice_total (drop (unat i) params)"
proof (induction params i totalAmount rule: sum_loop.induct)
  case (1 params i totalAmount)
  show ?case
  proof (cases "unat i < length params")
    case False
    with "1.prems"(1) have "r = totalAmount"
      by (subst (asm) sum_loop.simps) simp
    with False "1.prems"(2) show ?thesis
      by (simp add: invoice_total_def)
  next
    case True
    let ?a = "ip_amount (params ! unat i)"
    from True "1.prems"(1) have no: "\<not> 2 ^ 256 \<le> unat totalAmount + unat ?a"
      by (subst (asm) sum_loop.simps) (auto split: if_splits)
    from True "1.prems"(1) no have top: "i \<noteq> 0xFF"
      by (subst (asm) sum_loop.simps) (auto split: if_splits)
    from True "1.prems"(1) no top have rec: "sum_loop params (i + 1) (totalAmount + ?a) = Inr r"
      by (subst (asm) sum_loop.simps) simp
    from no have "unat totalAmount + unat ?a < 2 ^ LENGTH(256)"
      by simp
    then have add: "unat (totalAmount + ?a) = unat totalAmount + unat ?a"
      by (simp only: unat_add_lem)
    from top have suc: "unat (i + 1) = Suc (unat i)"
      by (rule unat_uint8_Suc)
    with True have "unat (i + 1) \<le> length params"
      by simp
    with "1.IH" True no top rec
    have "unat r = unat (totalAmount + ?a) + invoice_total (drop (unat (i + 1)) params)"
      by simp
    with add suc invoice_total_drop [OF True] show ?thesis
      by simp
  qed
qed

lemma sum_loop_ok:
  "length params \<le> 255 \<Longrightarrow> unat i \<le> length params \<Longrightarrow>
   unat totalAmount + invoice_total (drop (unat i) params) < 2 ^ 256 \<Longrightarrow>
   \<exists>r. sum_loop params i totalAmount = Inr r"
proof (induction params i totalAmount rule: sum_loop.induct)
  case (1 params i totalAmount)
  show ?case
  proof (cases "unat i < length params")
    case False
    then show ?thesis
      by (subst sum_loop.simps) simp
  next
    case True
    let ?a = "ip_amount (params ! unat i)"
    from True "1.prems"(3) invoice_total_drop [OF True]
    have bound: "unat totalAmount + unat ?a + invoice_total (drop (Suc (unat i)) params) < 2 ^ 256"
      by simp
    then have no: "\<not> 2 ^ 256 \<le> unat totalAmount + unat ?a"
      by simp
    from True "1.prems"(1) have top: "i \<noteq> 0xFF"
      by (auto simp add: word_unat_eq_iff)
    from no have "unat totalAmount + unat ?a < 2 ^ LENGTH(256)"
      by simp
    then have add: "unat (totalAmount + ?a) = unat totalAmount + unat ?a"
      by (simp only: unat_add_lem)
    from top have suc: "unat (i + 1) = Suc (unat i)"
      by (rule unat_uint8_Suc)
    from suc True have le: "unat (i + 1) \<le> length params"
      by simp
    from bound add suc
    have "unat (totalAmount + ?a) + invoice_total (drop (unat (i + 1)) params) < 2 ^ 256"
      by simp
    with "1.IH" True no top "1.prems"(1) le
    have "\<exists>r. sum_loop params (i + 1) (totalAmount + ?a) = Inr r"
      by simp
    with True no top show ?thesis
      by (subst sum_loop.simps) simp
  qed
qed


lemma etherBulkTransferAmounts_long:
  assumes "256 \<le> length params"
  shows "etherBulkTransferAmounts accepts this msg_sender msg_value params s bal =
           (if bal msg_sender < unat msg_value then Inl OutOfFunds
            else if owner s = msg_sender then Inl (Panic 0x11)
            else Inl (Revert ''Ownable: caller is not the owner''))"
  using sum_loop_long [OF assms, of 0 0]
  by (simp add: etherBulkTransferAmounts_def onlyOwner_def Let_def)

text \<open>
  A batch within the cap does go through: sent by the owner, with receivers that accept
  the coin and a total the executor holds, the call returns.
\<close>

lemma transfer_loop_ok:
  "length params \<le> 255 \<Longrightarrow> unat i \<le> length params \<Longrightarrow>
   \<forall>p \<in> set params. accepts (ip_receiver p) \<Longrightarrow>
   invoice_total (drop (unat i) params) \<le> bal this \<Longrightarrow>
   \<exists>bal'. transfer_loop accepts this params i bal = Inr bal'"
proof (induction accepts this params i bal rule: transfer_loop.induct)
  case (1 accepts this params i bal)
  show ?case
  proof (cases "unat i < length params")
    case False
    then show ?thesis
      by (subst transfer_loop.simps) simp
  next
    case True
    let ?p = "params ! unat i"
    let ?bal1 = "bal(this := bal this - unat (ip_amount ?p))"
    let ?bal' = "?bal1(ip_receiver ?p := ?bal1 (ip_receiver ?p) + unat (ip_amount ?p))"
    from True "1.prems"(4) invoice_total_drop [OF True]
    have enough: "unat (ip_amount ?p) + invoice_total (drop (Suc (unat i)) params) \<le> bal this"
      by simp
    from True "1.prems"(3) have acc: "accepts (ip_receiver ?p)"
      by simp
    from enough acc have tr: "transfer accepts this (ip_receiver ?p) (ip_amount ?p) bal = Inr ?bal'"
      by (simp add: transfer_def Let_def)
    from True "1.prems"(1) have top: "i \<noteq> 0xFF"
      by (auto simp add: word_unat_eq_iff)
    then have suc: "unat (i + 1) = Suc (unat i)"
      by (rule unat_uint8_Suc)
    with True have le: "unat (i + 1) \<le> length params"
      by simp
    from enough suc have "invoice_total (drop (unat (i + 1)) params) \<le> ?bal' this"
      by auto
    with True tr top "1.prems"(1) le "1.prems"(3)
    have rec: "\<exists>bal''. transfer_loop accepts this params (i + 1) ?bal' = Inr bal''"
      by (rule "1.IH")
    have "transfer_loop accepts this params i bal = transfer_loop accepts this params (i + 1) ?bal'"
      using True tr top by (subst transfer_loop.simps) (simp del: fun_upd_apply)
    with rec show ?thesis
      by (simp only:)
  qed
qed

lemma etherBulkTransferAmounts_succeeds:
  assumes "owner s = msg_sender" and "unat msg_value \<le> bal msg_sender"
    and "length params \<le> 255" and "\<forall>p \<in> set params. accepts (ip_receiver p)"
    and "invoice_total params \<le> receive_value this msg_sender msg_value bal this"
    and "invoice_total params < 2 ^ 256"
  shows "\<exists>bal'. etherBulkTransferAmounts accepts this msg_sender msg_value params s bal = Inr bal'"
proof -
  from assms(3,6) have "\<exists>t. sum_loop params 0 0 = Inr t"
    by (intro sum_loop_ok) simp_all
  then obtain t where t: "sum_loop params 0 0 = Inr t"
    by blast
  then have "unat t = unat (0 :: uint256) + invoice_total (drop (unat (0 :: uint8)) params)"
    by (rule sum_loop_result) simp
  with assms(5) have le: "unat t \<le> receive_value this msg_sender msg_value bal this"
    by simp
  from assms(3,4,5)
  have "\<exists>bal'. transfer_loop accepts this params 0 (receive_value this msg_sender msg_value bal) = Inr bal'"
    by (intro transfer_loop_ok) simp_all
  with assms(1,2) t le show ?thesis
    by (simp add: etherBulkTransferAmounts_def onlyOwner_def Let_def)
qed

lemma etherBulkTransferAmounts_example:
  "etherBulkTransferAmounts (\<lambda>_. True) 9 1 0
     [\<lparr>ip_receiver = 2, ip_amount = 10\<rparr>, \<lparr>ip_receiver = 3, ip_amount = 20\<rparr>]
     (constructor_BulkWithdraw 1) ((\<lambda>_. 0)(9 := 50))
   = Inr ((\<lambda>_. 0)(9 := 20, 2 := 10, 3 := 20))"
  by (simp add: etherBulkTransferAmounts_def onlyOwner_def constructor_BulkWithdraw_def
      receive_value_def sum_loop.simps transfer_loop.simps transfer_def Let_def fun_eq_iff)

section \<open>Claims about the native-coin path\<close>

text \<open>
  C10 (implicit batch size cap): every call of \<open>etherBulkTransferAmounts\<close> with 256
  or more invoices fails, whatever the balances are; sent by the owner with a value the
  owner can pay, it fails with \<open>Panic 0x11\<close>, the overflow of checked arithmetic,
  before the funds check is reached.  So only batches of at most 255 invoices can
  succeed.
\<close>

theorem etherBulkTransferAmounts_batch_cap:
  assumes "256 \<le> length params"
  shows "(\<exists>e. etherBulkTransferAmounts accepts this msg_sender msg_value params s bal = Inl e) \<and>
         (owner s = msg_sender \<and> unat msg_value \<le> bal msg_sender \<longrightarrow>
            etherBulkTransferAmounts accepts this msg_sender msg_value params s bal = Inl (Panic 0x11))"
  by (simp add: etherBulkTransferAmounts_long [OF assms])

theorem etherBulkTransferAmounts_batch_cap_witness:
  "256 \<le> length (replicate 256 \<lparr>ip_receiver = 2, ip_amount = 1\<rparr>) \<and>
   etherBulkTransferAmounts (\<lambda>_. True) 9 1 0 (replicate 256 \<lparr>ip_receiver = 2, ip_amount = 1\<rparr>)
     (constructor_BulkWithdraw 1) ((\<lambda>_. 0)(9 := 1000)) = Inl (Panic 0x11)"
proof -
  have len: "256 \<le> length (replicate 256 \<lparr>ip_receiver = 2 :: address, ip_amount = 1 :: uint256\<rparr>)"
    by simp
  from etherBulkTransferAmounts_batch_cap [OF len, of "\<lambda>_. True" 9 1 0 "constructor_BulkWithdraw 1" "(\<lambda>_. 0)(9 := 1000)"]
  show ?thesis
    by (simp add: constructor_BulkWithdraw_def)
qed

text \<open>
  C5, as stated, fails: a batch of 256 invoices of 1 wei each, sent by the owner to an
  executor that holds nothing, exceeds the held balance, yet the call does not fail with
  the insufficient-funds message: the \<open>uint8\<close> counter of the summing loop overflows
  first and the failure is \<open>Panic 0x11\<close>.
\<close>

theorem etherBulkTransferAmounts_long_batch_panics:
  "receive_value 9 1 0 (\<lambda>_. 0) 9 < invoice_total (replicate 256 \<lparr>ip_receiver = 2, ip_amount = 1\<rparr>) \<and>
   etherBulkTransferAmounts (\<lambda>_. True) 9 1 0 (replicate 256 \<lparr>ip_receiver = 2, ip_amount = 1\<rparr>)
     (constructor_BulkWithdraw 1) (\<lambda>_. 0) = Inl (Panic 0x11)"
proof -
  have "256 \<le> length (replicate 256 \<lparr>ip_receiver = 2 :: address, ip_amount = 1 :: uint256\<rparr>)"
    by simp
  then have "etherBulkTransferAmounts (\<lambda>_. True) 9 1 0 (replicate 256 \<lparr>ip_receiver = 2, ip_amount = 1\<rparr>)
     (constructor_BulkWithdraw 1) (\<lambda>_. 0) = Inl (Panic 0x11)"
    by (simp add: etherBulkTransferAmounts_long constructor_BulkWithdraw_def)
  moreover have "receive_value 9 1 0 (\<lambda>_. 0) 9
      < invoice_total (replicate 256 \<lparr>ip_receiver = 2, ip_amount = 1\<rparr>)"
    by (simp add: receive_value_def invoice_total_def sum_list_replicate)
  ultimately show ?thesis
    by simp
qed

text \<open>
  C5, amended: whenever the summed amounts exceed the balance the executor holds during
  the call (the value sent with the call included), the call fails and the ledger after
  the transaction is the ledger before it: no transfer is made and every balance is
  unchanged.  The failure is the insufficient-funds one when the call comes from the
  owner, who can pay the value sent, the batch has at most 255 invoices and the sum fits
  in \<open>uint256\<close>.
\<close>

theorem etherBulkTransferAmounts_insufficient_funds:
  assumes "receive_value this msg_sender msg_value bal this < invoice_total params"
  shows "(\<exists>e. etherBulkTransferAmounts accepts this msg_sender msg_value params s bal = Inl e) \<and>
         after_tx bal (etherBulkTransferAmounts accepts this msg_sender msg_value params s bal) = bal \<and>
         (owner s = msg_sender \<and> unat msg_value \<le> bal msg_sender \<and> length params \<le> 255
            \<and> invoice_total params < 2 ^ 256 \<longrightarrow>
          etherBulkTransferAmounts accepts this msg_sender msg_value params s bal =
            Inl (Revert ''There are not enough funds stored in the smart contract''))"
proof -
  let ?r = "etherBulkTransferAmounts accepts this msg_sender msg_value params s bal"
  have short: "sum_loop params 0 0 = Inr t \<Longrightarrow> \<not> unat t \<le> receive_value this msg_sender msg_value bal this" for t
  proof -
    assume "sum_loop params 0 0 = Inr t"
    then have "unat t = unat (0 :: uint256) + invoice_total (drop (unat (0 :: uint8)) params)"
      by (rule sum_loop_result) simp
    with assms show ?thesis
      by simp
  qed
  have fails: "\<exists>e. ?r = Inl e"
  proof (cases "sum_loop params 0 0")
    case (Inl e)
    then show ?thesis
      by (simp add: etherBulkTransferAmounts_def onlyOwner_def Let_def)
  next
    case (Inr t)
    with short [OF Inr] show ?thesis
      by (simp add: etherBulkTransferAmounts_def onlyOwner_def Let_def)
  qed
  then have same: "after_tx bal ?r = bal"
    by (auto simp add: after_tx_def)
  have funds: "?r = Inl (Revert ''There are not enough funds stored in the smart contract'')"
    if "owner s = msg_sender" "unat msg_value \<le> bal msg_sender" "length params \<le> 255"
      "invoice_total params < 2 ^ 256"
  proof -
    from that(3,4) have "\<exists>t. sum_loop params 0 0 = Inr t"
      by (intro sum_loop_ok) simp_all
    then obtain t where t: "sum_loop params 0 0 = Inr t"
      by blast
    with short [OF t] that(1,2) show ?thesis
      by (simp add: etherBulkTransferAmounts_def onlyOwner_def Let_def)
  qed
  from fails same funds show ?thesis
    by blast
qed

theorem etherBulkTransferAmounts_insufficient_funds_witness:
  "receive_value 9 1 5 ((\<lambda>_. 0)(1 := 100, 9 := 20)) 9
     < invoice_total [\<lparr>ip_receiver = 2, ip_amount = 10\<rparr>, \<lparr>ip_receiver = 3, ip_amount = 20\<rparr>] \<and>
   etherBulkTransferAmounts (\<lambda>_. True) 9 1 5
       [\<lparr>ip_receiver = 2, ip_amount = 10\<rparr>, \<lparr>ip_receiver = 3, ip_amount = 20\<rparr>]
       (constructor_BulkWithdraw 1) ((\<lambda>_. 0)(1 := 100, 9 := 20))
     = Inl (Revert ''There are not enough funds stored in the smart contract'') \<and>
   after_tx ((\<lambda>_. 0)(1 := 100, 9 := 20))
     (etherBulkTransferAmounts (\<lambda>_. True) 9 1 5
       [\<lparr>ip_receiver = 2, ip_amount = 10\<rparr>, \<lparr>ip_receiver = 3, ip_amount = 20\<rparr>]
       (constructor_BulkWithdraw 1) ((\<lambda>_. 0)(1 := 100, 9 := 20)))
     = (\<lambda>_. 0)(1 := 100, 9 := 20)"
proof -
  have h: "receive_value 9 1 5 ((\<lambda>_. 0)(1 := 100, 9 := 20)) 9
     < invoice_total [\<lparr>ip_receiver = 2, ip_amount = 10\<rparr>, \<lparr>ip_receiver = 3, ip_amount = 20\<rparr>]"
    by (simp add: receive_value_def invoice_total_def)
  from etherBulkTransferAmounts_insufficient_funds [OF h, of "\<lambda>_. True" "constructor_BulkWithdraw 1"] h show ?thesis
    by (simp add: constructor_BulkWithdraw_def invoice_total_def after_tx_def)
qed

section \<open>The token path\<close>

lemma spec_distributeTokens_append:
  "spec_distributeTokens transferFrom this s (xs @ ys) w =
     (case spec_distributeTokens transferFrom this s xs w of
        Inl e \<Rightarrow> Inl e
      | Inr w' \<Rightarrow> spec_distributeTokens transferFrom this s ys w')"
  by (induction xs arbitrary: w) (auto split: sum.splits prod.splits)

lemma erc20_loop_spec:
  "\<forall>p \<in> set params. tip_token p \<noteq> 0 \<Longrightarrow>
   \<forall>tokenAddr spender from to amt w w'. transferFrom tokenAddr spender from to amt w \<noteq> Inr (False, w') \<Longrightarrow>
   unat i \<le> length params \<Longrightarrow>
     erc20_loop transferFrom this s params i w =
       (case spec_distributeTokens transferFrom this s (drop (unat i) (take 65536 params)) w of
          Inl e \<Rightarrow> Inl e
        | Inr w' \<Rightarrow> if 65536 \<le> length params then Inl (Panic 0x11) else Inr w')"
proof (induction transferFrom this s params i w rule: erc20_loop.induct)
  case (1 transferFrom this s params i w)
  show ?case
  proof (cases "unat i < length params")
    case False
    with "1.prems"(3) have len: "length params = unat i"
      by simp
    then have "drop (unat i) (take 65536 params) = []"
      by simp
    moreover from len unat_uint16_less [of i] have "\<not> 65536 \<le> length params"
      by simp
    ultimately show ?thesis
      using False by (subst erc20_loop.simps) simp
  next
    case True
    let ?p = "params ! unat i"
    let ?call = "transferFrom (tokens s (tip_token ?p)) this (tip_sender ?p) (tip_receiver ?p)
        (tip_amount ?p) w"
    from True unat_uint16_less [of i] have "unat i < length (take 65536 params)"
      by simp
    then have "drop (unat i) (take 65536 params) =
        take 65536 params ! unat i # drop (Suc (unat i)) (take 65536 params)"
      by (rule Cons_nth_drop_Suc [symmetric])
    moreover have "take 65536 params ! unat i = ?p"
      using unat_uint16_less [of i] by simp
    ultimately have dr: "drop (unat i) (take 65536 params) = ?p # drop (Suc (unat i)) (take 65536 params)"
      by simp
    from True have "?p \<in> set params"
      by simp
    with "1.prems"(1) have "tip_token ?p \<noteq> 0"
      by blast
    then have byId: "getTokenById s (tip_token ?p) = Inr (tokens s (tip_token ?p))"
      by (simp add: getTokenById_def)
    show ?thesis
    proof (cases ?call)
      case (Inl e)
      with True dr byId show ?thesis
        by (subst erc20_loop.simps) simp
    next
      case (Inr r)
      obtain ok w' where r: "r = (ok, w')"
        by (cases r)
      with Inr "1.prems"(2) have ok: "ok"
        by (cases ok) auto
      show ?thesis
      proof (cases "i = 0xFFFF")
        case top: True
        then have "unat i = 65535"
          by simp
        with True have "drop (Suc (unat i)) (take 65536 params) = []" and "65536 \<le> length params"
          by simp_all
        with True dr byId Inr r ok top show ?thesis
          by (subst erc20_loop.simps) simp
      next
        case False
        then have suc: "unat (i + 1) = Suc (unat i)"
          by (rule unat_uint16_Suc)
        with True have "unat (i + 1) \<le> length params"
          by simp
        with "1.IH" [OF True Inr r [symmetric] False "1.prems"(1,2)] r
        have "erc20_loop transferFrom this s params (i + 1) w' =
          (case spec_distributeTokens transferFrom this s (drop (unat (i + 1)) (take 65536 params)) w' of
             Inl e \<Rightarrow> Inl e
           | Inr w'' \<Rightarrow> if 65536 \<le> length params then Inl (Panic 0x11) else Inr w'')"
          by simp
        with True dr byId Inr r ok False suc show ?thesis
          by (subst erc20_loop.simps) simp
      qed
    qed
  qed
qed

section \<open>Claims about the token path\<close>

text \<open>
  C6, as stated, fails in two places.  The registry holds the token \<open>0xAA\<close> under the
  id \<open>1\<close> and the sender \<open>2\<close> owns 100 of it.  First, with a token that reports a
  failed transfer by returning \<open>false\<close>, the batch of a good invoice and one that
  asks for 200 does not revert: the executor never reads the returned \<open>bool\<close>, the
  call succeeds and the first transfer stays applied.  Second, for an invoice with the
  token id \<open>0\<close>, \<open>getTokenById\<close> fails with its argument error, while the executor
  reads slot \<open>0\<close> of the mapping and calls \<open>transferFrom\<close> on the address found
  there (here the zero address, so the failure is that of the call).
\<close>

theorem erc20sMultiOriginBulkTransferAmounts_partial_and_id_zero:
  "(let s1 = \<lparr>owner = 1, tokenId = 1, tokens = (\<lambda>_. 0)(1 := 0xAA)\<rparr>;
        w0 = (\<lambda>_ _. 0)(0xAA := (\<lambda>_. 0)(2 := 100));
        w1 = move_tokens 0xAA 2 3 10 w0;
        p1 = \<lparr>tip_token = 1, tip_receiver = 3, tip_sender = 2, tip_amount = 10\<rparr>;
        p2 = \<lparr>tip_token = 1, tip_receiver = 4, tip_sender = 2, tip_amount = 200\<rparr>;
        p0 = \<lparr>tip_token = 0, tip_receiver = 3, tip_sender = 2, tip_amount = 10\<rparr>
    in addToken 1 0xAA (constructor_BulkWithdraw 1) = Inr (s1, TokenAdded 1)
     \<and> falseReturningToken 0xAA 9 2 4 200 w1 = Inr (False, w1)
     \<and> erc20sMultiOriginBulkTransferAmounts falseReturningToken 9 1 [p1, p2] s1 w0 = Inr w1
     \<and> w0 0xAA 3 = 0
     \<and> after_tx w0 (erc20sMultiOriginBulkTransferAmounts falseReturningToken 9 1 [p1, p2] s1 w0) 0xAA 3 = 10
     \<and> getTokenById s1 0 = Inl (Revert ''id should not be 0'')
     \<and> erc20sMultiOriginBulkTransferAmounts revertingToken 9 1 [p0] s1 w0 = Inl (Revert []))"
  by (simp add: Let_def addToken_def onlyOwner_def constructor_BulkWithdraw_def
      erc20sMultiOriginBulkTransferAmounts_def erc20_loop.simps falseReturningToken_def
      revertingToken_def move_tokens_def getTokenById_def after_tx_def)

text \<open>
  C6, amended: for a batch sent by the owner whose token ids are all nonzero, over tokens
  whose \<open>transferFrom\<close> reports failure by reverting, the executor does what the
  specification says on the first 65536 invoices: in input order, it resolves each token
  id as \<open>getTokenById\<close> does and calls \<open>transferFrom\<close> from the sender to the
  receiver for the amount, with the executor as spender; a batch of 65536 or more
  invoices then fails with \<open>Panic 0x11\<close>.  When a transfer reverts, after the
  invoices before it have gone through, the whole call fails with that error and the
  ledger after the transaction is the ledger before it.
\<close>

theorem erc20sMultiOriginBulkTransferAmounts_in_order_atomic:
  fixes transferFrom :: "'w IERC20"
  assumes own: "owner s = msg_sender"
    and ids: "\<forall>p \<in> set params. tip_token p \<noteq> 0"
    and rev: "\<forall>tokenAddr spender from to amt w w'.
                transferFrom tokenAddr spender from to amt w \<noteq> Inr (False, w')"
  shows "erc20sMultiOriginBulkTransferAmounts transferFrom this msg_sender params s w =
           (case spec_distributeTokens transferFrom this s (take 65536 params) w of
              Inl e \<Rightarrow> Inl e
            | Inr w' \<Rightarrow> if 65536 \<le> length params then Inl (Panic 0x11) else Inr w')
       \<and> (\<forall>pre p post w1 e.
             params = pre @ p # post \<and> length pre < 65536
             \<and> spec_distributeTokens transferFrom this s pre w = Inr w1
             \<and> transferFrom (tokens s (tip_token p)) this (tip_sender p) (tip_receiver p)
                  (tip_amount p) w1 = Inl e
             \<longrightarrow> erc20sMultiOriginBulkTransferAmounts transferFrom this msg_sender params s w = Inl e
               \<and> after_tx w (erc20sMultiOriginBulkTransferAmounts transferFrom this msg_sender params s w) = w)"
proof -
  let ?run = "erc20sMultiOriginBulkTransferAmounts transferFrom this msg_sender params s w"
  have "erc20_loop transferFrom this s params 0 w =
           (case spec_distributeTokens transferFrom this s (drop (unat (0 :: uint16)) (take 65536 params)) w of
              Inl e \<Rightarrow> Inl e
            | Inr w' \<Rightarrow> if 65536 \<le> length params then Inl (Panic 0x11) else Inr w')"
    using ids rev by (rule erc20_loop_spec) simp
  with own have run: "?run =
           (case spec_distributeTokens transferFrom this s (take 65536 params) w of
              Inl e \<Rightarrow> Inl e
            | Inr w' \<Rightarrow> if 65536 \<le> length params then Inl (Panic 0x11) else Inr w')"
    by (simp add: erc20sMultiOriginBulkTransferAmounts_def onlyOwner_def)
  have abort: "?run = Inl e \<and> after_tx w ?run = w"
    if split: "params = pre @ p # post" and len: "length pre < 65536"
      and pre: "spec_distributeTokens transferFrom this s pre w = Inr w1"
      and fail: "transferFrom (tokens s (tip_token p)) this (tip_sender p) (tip_receiver p)
                  (tip_amount p) w1 = Inl e"
    for pre p post w1 e
  proof -
    from len obtain m where m: "65536 - length pre = Suc m"
      by (cases "65536 - length pre") auto
    from split len m have tk: "take 65536 params = pre @ p # take m post"
      by simp
    from split ids have "tip_token p \<noteq> 0"
      by simp
    then have "getTokenById s (tip_token p) = Inr (tokens s (tip_token p))"
      by (simp add: getTokenById_def)
    with fail have "spec_distributeTokens transferFrom this s (p # take m post) w1 = Inl e"
      by simp
    with pre have "spec_distributeTokens transferFrom this s (pre @ p # take m post) w = Inl e"
      by (simp add: spec_distributeTokens_append)
    with run tk have "?run = Inl e"
      by simp
    then show ?thesis
      by (simp add: after_tx_def)
  qed
  from run abort show ?thesis
    by blast
qed

theorem erc20sMultiOriginBulkTransferAmounts_in_order_atomic_witness:
  "(let s1 = \<lparr>owner = 1, tokenId = 1, tokens = (\<lambda>_. 0)(1 := 0xAA)\<rparr>;
        w0 = (\<lambda>_ _. 0)(0xAA := (\<lambda>_. 0)(2 := 100));
        good = [\<lparr>tip_token = 1, tip_receiver = 3, tip_sender = 2, tip_amount = 10\<rparr>,
                \<lparr>tip_token = 1, tip_receiver = 4, tip_sender = 2, tip_amount = 20\<rparr>];
        bad = [\<lparr>tip_token = 1, tip_receiver = 3, tip_sender = 2, tip_amount = 10\<rparr>,
               \<lparr>tip_token = 1, tip_receiver = 4, tip_sender = 2, tip_amount = 200\<rparr>]
    in addToken 1 0xAA (constructor_BulkWithdraw 1) = Inr (s1, TokenAdded 1)
     \<and> (case erc20sMultiOriginBulkTransferAmounts revertingToken 9 1 good s1 w0 of
          Inl e \<Rightarrow> False
        | Inr w' \<Rightarrow> w' 0xAA 2 = 70 \<and> w' 0xAA 3 = 10 \<and> w' 0xAA 4 = 20)
     \<and> erc20sMultiOriginBulkTransferAmounts revertingToken 9 1 bad s1 w0
          = Inl (Revert ''ERC20: transfer amount exceeds balance'')
     \<and> after_tx w0 (erc20sMultiOriginBulkTransferAmounts revertingToken 9 1 bad s1 w0) = w0)"
proof -
  let ?s1 = "\<lparr>owner = 1, tokenId = 1, tokens = (\<lambda>_. 0)(1 := 0xAA)\<rparr> :: BulkWithdraw"
  let ?w0 = "(\<lambda>_ _. 0)(0xAA := (\<lambda>_. 0)(2 := 100)) :: token_ledger"
  let ?p1 = "\<lparr>tip_token = 1, tip_receiver = 3, tip_sender = 2, tip_amount = 10\<rparr>"
  let ?p2 = "\<lparr>tip_token = 1, tip_receiver = 4, tip_sender = 2, tip_amount = 20\<rparr>"
  let ?p3 = "\<lparr>tip_token = 1, tip_receiver = 4, tip_sender = 2, tip_amount = 200\<rparr>"
  have own: "owner ?s1 = 1"
    by simp
  have rev: "\<forall>tokenAddr spender from to amt w w'.
      revertingToken tokenAddr spender from to amt w \<noteq> Inr (False, w')"
    by (simp add: revertingToken_def)
  have good: "\<forall>p \<in> set [?p1, ?p2]. tip_token p \<noteq> 0"
    by simp
  have bad: "\<forall>p \<in> set [?p1, ?p3]. tip_token p \<noteq> 0"
    by simp
  have reg: "addToken 1 0xAA (constructor_BulkWithdraw 1) = Inr (?s1, TokenAdded 1)"
    by (simp add: addToken_def onlyOwner_def constructor_BulkWithdraw_def)
  have "erc20sMultiOriginBulkTransferAmounts revertingToken 9 1 [?p1, ?p2] ?s1 ?w0 =
      (case spec_distributeTokens revertingToken 9 ?s1 (take 65536 [?p1, ?p2]) ?w0 of
         Inl e \<Rightarrow> Inl e
       | Inr w' \<Rightarrow> if 65536 \<le> length [?p1, ?p2] then Inl (Panic 0x11) else Inr w')"
    using erc20sMultiOriginBulkTransferAmounts_in_order_atomic [OF own good rev, of 9 ?w0] by blast
  then have r1: "(case erc20sMultiOriginBulkTransferAmounts revertingToken 9 1 [?p1, ?p2] ?s1 ?w0 of
          Inl e \<Rightarrow> False
        | Inr w' \<Rightarrow> w' 0xAA 2 = 70 \<and> w' 0xAA 3 = 10 \<and> w' 0xAA 4 = 20)"
    by (simp add: getTokenById_def revertingToken_def move_tokens_def)
  have "spec_distributeTokens revertingToken 9 ?s1 [?p1] ?w0 = Inr (move_tokens 0xAA 2 3 10 ?w0)"
    by (simp add: getTokenById_def revertingToken_def)
  moreover have "revertingToken (tokens ?s1 (tip_token ?p3)) 9 (tip_sender ?p3) (tip_receiver ?p3)
      (tip_amount ?p3) (move_tokens 0xAA 2 3 10 ?w0) = Inl (Revert ''ERC20: transfer amount exceeds balance'')"
    by (simp add: revertingToken_def move_tokens_def)
  moreover have "[?p1, ?p3] = [?p1] @ ?p3 # []" and "length [?p1] < 65536"
    by simp_all
  ultimately have r2: "erc20sMultiOriginBulkTransferAmounts revertingToken 9 1 [?p1, ?p3] ?s1 ?w0
          = Inl (Revert ''ERC20: transfer amount exceeds balance'')
     \<and> after_tx ?w0 (erc20sMultiOriginBulkTransferAmounts revertingToken 9 1 [?p1, ?p3] ?s1 ?w0) = ?w0"
    using erc20sMultiOriginBulkTransferAmounts_in_order_atomic [OF own bad rev, of 9 ?w0] by blast
  show ?thesis
    unfolding Let_def by (intro conjI reg r1 r2 [THEN conjunct1] r2 [THEN conjunct2])
qed

section \<open>The off-ledger module\<close>

lemma sumInvoices_sum_list:
  "sumInvoices totalAmount sendingInvoices = totalAmount + sum_list (map si_amount sendingInvoices)"
  by (induction sendingInvoices arbitrary: totalAmount) simp_all

lemma validateLoop_codes:
  "map code (fst (validateLoop this hdWallet batch errors invoices)) =
     map code errors @ concat (map (spec_invoice_codes this hdWallet) batch)"
proof (induction batch arbitrary: errors invoices)
  case Nil
  show ?case by simp
next
  case (Cons invoice rest)
  show ?case
    by (simp add: Cons.IH Let_def spec_invoice_codes_def checkTokenExistInContract_def
        checkWalletTokenBalance_def checkWalletAllowance_def getEtherSigner_def)
qed

lemma validateLoop_invoices:
  "snd (validateLoop this hdWallet batch errors invoices) =
     invoices @ map (ledger_invoice this hdWallet)
       (filter (\<lambda>invoice. contract_getTokenByAddress (provider this) (tokenAddress invoice) \<noteq> 0) batch)"
proof (induction batch arbitrary: errors invoices)
  case Nil
  show ?case by simp
next
  case (Cons invoice rest)
  show ?case
    by (simp add: Cons.IH Let_def checkTokenExistInContract_def getEtherSigner_def ledger_invoice_def)
qed

lemma clean_all_registered:
  "concat (map (spec_invoice_codes this hdWallet) batch) = [] \<Longrightarrow>
   filter (\<lambda>invoice. contract_getTokenByAddress (provider this) (tokenAddress invoice) \<noteq> 0) batch = batch"
  by (induction batch) (auto simp add: spec_invoice_codes_def split: if_splits)

section \<open>Claims about the off-ledger module\<close>

text \<open>
  C4 (strict comparison boundary): \<open>checkWalletTokenBalance\<close> holds exactly when the
  wallet's balance of the token is strictly greater than the amount, and
  \<open>checkWalletAllowance\<close> exactly when the allowance the wallet granted to the
  executor contract is strictly greater than the amount; asked for exactly the balance,
  or exactly the allowance, each check is false.
\<close>

theorem checks_strict_comparison:
  "checkWalletTokenBalance this walletAddress tokenAddress' amount
     = (erc20_balanceOf (provider this) tokenAddress' walletAddress > amount)
   \<and> checkWalletAllowance this walletAddress tokenAddress' amount
     = (erc20_allowance (provider this) tokenAddress' walletAddress (contract (config this)) > amount)
   \<and> \<not> checkWalletTokenBalance this walletAddress tokenAddress'
         (erc20_balanceOf (provider this) tokenAddress' walletAddress)
   \<and> \<not> checkWalletAllowance this walletAddress tokenAddress'
         (erc20_allowance (provider this) tokenAddress' walletAddress (contract (config this)))"
  by (simp add: checkWalletTokenBalance_def checkWalletAllowance_def)

text \<open>
  C3 (validation order): the codes of the errors the validation loop accumulates are
  the codes of the first invoice, then those of the second, and so on, where an invoice
  with an unregistered token records \<open>TOKEN_NOT_IN_CONTRACT\<close> only, and an invoice
  with a registered token records \<open>INSUFFICIENT_BALANCE\<close> and then
  \<open>INSUFFICIENT_ALLOWANCE\<close>, each when its own check fails.  When any code is
  recorded, \<open>processTokenInvoices\<close> returns that list.
\<close>

theorem validation_errors_in_order:
  "map code (fst (validateLoop this hdWallet batch [] []))
     = concat (map (spec_invoice_codes this hdWallet) batch)
   \<and> (concat (map (spec_invoice_codes this hdWallet) batch) \<noteq> [] \<longrightarrow>
        (\<exists>errors. processTokenInvoices this hdWallet batch = (Inr errors, [])
           \<and> map code errors = concat (map (spec_invoice_codes this hdWallet) batch)))"
proof -
  have codes: "map code (fst (validateLoop this hdWallet batch [] []))
     = concat (map (spec_invoice_codes this hdWallet) batch)"
    by (simp add: validateLoop_codes)
  obtain errors invoices where v: "validateLoop this hdWallet batch [] [] = (errors, invoices)"
    by (cases "validateLoop this hdWallet batch [] []")
  with codes have c: "map code errors = concat (map (spec_invoice_codes this hdWallet) batch)"
    by simp
  have "processTokenInvoices this hdWallet batch = (Inr errors, [])"
    if "concat (map (spec_invoice_codes this hdWallet) batch) \<noteq> []"
  proof -
    from that c have "errors \<noteq> []"
      by auto
    with v show ?thesis
      by (simp add: processTokenInvoices_def)
  qed
  with codes c show ?thesis
    by blast
qed

theorem validation_errors_in_order_witness:
  "(let this0 = \<lparr>config = \<lparr>chainId = 1, providerURL = ''http://127.0.0.1:7546'', contract = ''0xC'',
                            ownerWallet = \<lparr>coinType = 60, account = 0, change = 0, index = 0\<rparr>\<rparr>,
                 provider = \<lparr>contract_getTokenByAddress = (\<lambda>a. if a = ''0xT'' then 1 else 0),
                              erc20_balanceOf = (\<lambda>t w. if w = ''0xW1'' then 1000 else 5000),
                              erc20_allowance = (\<lambda>t w c. if w = ''0xW1'' then 10 else 5000),
                              getBalance = (\<lambda>a. if a = ''0xC'' then 5 else 0),
                              getTransactionCount = (\<lambda>a. 7),
                              accepted = (\<lambda>c. True)\<rparr>\<rparr>;
        hd0 = (\<lambda>w. if account w = 0 then ''0xOwner'' else if account w = 1 then ''0xW1'' else ''0xW2'');
        batch = [\<lparr>wallet = \<lparr>coinType = 60, account = 2, change = 0, index = 0\<rparr>,
                   tokenAddress = ''0xU'', sti_amount = 1, sti_receiver = ''0xR''\<rparr>,
                 \<lparr>wallet = \<lparr>coinType = 60, account = 1, change = 0, index = 0\<rparr>,
                   tokenAddress = ''0xT'', sti_amount = 1000, sti_receiver = ''0xR''\<rparr>,
                 \<lparr>wallet = \<lparr>coinType = 60, account = 2, change = 0, index = 0\<rparr>,
                   tokenAddress = ''0xT'', sti_amount = 1000, sti_receiver = ''0xR''\<rparr>]
    in concat (map (spec_invoice_codes this0 hd0) batch) \<noteq> []
     \<and> (\<exists>errors. processTokenInvoices this0 hd0 batch = (Inr errors, [])
           \<and> map code errors
               = [''TOKEN_NOT_IN_CONTRACT'', ''INSUFFICIENT_BALANCE'', ''INSUFFICIENT_ALLOWANCE'']))"
  using validation_errors_in_order [of "\<lparr>config = \<lparr>chainId = 1, providerURL = ''http://127.0.0.1:7546'', contract = ''0xC'',
                            ownerWallet = \<lparr>coinType = 60, account = 0, change = 0, index = 0\<rparr>\<rparr>,
                 provider = \<lparr>contract_getTokenByAddress = (\<lambda>a. if a = ''0xT'' then 1 else 0),
                              erc20_balanceOf = (\<lambda>t w. if w = ''0xW1'' then 1000 else 5000),
                              erc20_allowance = (\<lambda>t w c. if w = ''0xW1'' then 10 else 5000),
                              getBalance = (\<lambda>a. if a = ''0xC'' then 5 else 0),
                              getTransactionCount = (\<lambda>a. 7),
                              accepted = (\<lambda>c. True)\<rparr>\<rparr>"
      "(\<lambda>w. if account w = 0 then ''0xOwner'' else if account w = 1 then ''0xW1'' else ''0xW2'')"
      "[\<lparr>wallet = \<lparr>coinType = 60, account = 2, change = 0, index = 0\<rparr>,
                   tokenAddress = ''0xU'', sti_amount = 1, sti_receiver = ''0xR''\<rparr>,
                 \<lparr>wallet = \<lparr>coinType = 60, account = 1, change = 0, index = 0\<rparr>,
                   tokenAddress = ''0xT'', sti_amount = 1000, sti_receiver = ''0xR''\<rparr>,
                 \<lparr>wallet = \<lparr>coinType = 60, account = 2, change = 0, index = 0\<rparr>,
                   tokenAddress = ''0xT'', sti_amount = 1000, sti_receiver = ''0xR''\<rparr>]"]
  by (simp add: spec_invoice_codes_def Let_def)

text \<open>
  C2 (all-or-nothing before the chain): when validation recorded an error,
  \<open>processTokenInvoices\<close> returns the accumulated errors and sends no write to the
  ledger.  When it recorded none, the module sends exactly one write, the token
  distribution call over the invoices built from the whole batch, in order, and returns
  the empty list; if the ledger rejects that write, the rejection is thrown instead.
\<close>

theorem processTokenInvoices_all_or_nothing:
  "(fst (validateLoop this hdWallet batch [] []) \<noteq> [] \<longrightarrow>
      processTokenInvoices this hdWallet batch
        = (Inr (fst (validateLoop this hdWallet batch [] [])), []))
   \<and> (fst (validateLoop this hdWallet batch [] []) = [] \<longrightarrow>
      processTokenInvoices this hdWallet batch
        = (let call = Call_erc20sMultiOriginBulkTransferAmounts (hdWallet (ownerWallet (config this)))
                        (map (ledger_invoice this hdWallet) batch)
           in (if accepted (provider this) call then Inr [] else Inl (CallException call), [call])))"
proof -
  obtain errors invoices where v: "validateLoop this hdWallet batch [] [] = (errors, invoices)"
    by (cases "validateLoop this hdWallet batch [] []")
  have "invoices = map (ledger_invoice this hdWallet) batch" if "errors = []"
  proof -
    from v that have "map code (fst (validateLoop this hdWallet batch [] [])) = []"
      by simp
    then have "concat (map (spec_invoice_codes this hdWallet) batch) = []"
      by (simp only: validateLoop_codes) simp
    then have "filter (\<lambda>invoice. contract_getTokenByAddress (provider this) (tokenAddress invoice) \<noteq> 0) batch = batch"
      by (rule clean_all_registered)
    with validateLoop_invoices [of this hdWallet batch "[]" "[]"] v show ?thesis
      by simp
  qed
  with v show ?thesis
    by (auto simp add: processTokenInvoices_def getEtherSigner_def Let_def)
qed

theorem processTokenInvoices_all_or_nothing_witness:
  "(let this0 = \<lparr>config = \<lparr>chainId = 1, providerURL = ''http://127.0.0.1:7546'', contract = ''0xC'',
                            ownerWallet = \<lparr>coinType = 60, account = 0, change = 0, index = 0\<rparr>\<rparr>,
                 provider = \<lparr>contract_getTokenByAddress = (\<lambda>a. if a = ''0xT'' then 1 else 0),
                              erc20_balanceOf = (\<lambda>t w. if w = ''0xW1'' then 1000 else 5000),
                              erc20_allowance = (\<lambda>t w c. if w = ''0xW1'' then 10 else 5000),
                              getBalance = (\<lambda>a. if a = ''0xC'' then 5 else 0),
                              getTransactionCount = (\<lambda>a. 7),
                              accepted = (\<lambda>c. True)\<rparr>\<rparr>;
        hd0 = (\<lambda>w. if account w = 0 then ''0xOwner'' else if account w = 1 then ''0xW1'' else ''0xW2'');
        unregistered = \<lparr>wallet = \<lparr>coinType = 60, account = 2, change = 0, index = 0\<rparr>,
                   tokenAddress = ''0xU'', sti_amount = 1, sti_receiver = ''0xR''\<rparr>;
        good = \<lparr>wallet = \<lparr>coinType = 60, account = 2, change = 0, index = 0\<rparr>,
                   tokenAddress = ''0xT'', sti_amount = 1000, sti_receiver = ''0xR''\<rparr>
    in fst (validateLoop this0 hd0 [good, unregistered] [] []) \<noteq> []
     \<and> processTokenInvoices this0 hd0 [good, unregistered]
         = (Inr [\<lparr>code = ''TOKEN_NOT_IN_CONTRACT'', message = ''Token 0xU is not in the contract.''\<rparr>], [])
     \<and> fst (validateLoop this0 hd0 [good, good] [] []) = []
     \<and> processTokenInvoices this0 hd0 [good, good]
         = (Inr [], [Call_erc20sMultiOriginBulkTransferAmounts ''0xOwner''
              [\<lparr>ti_token = 1, ti_sender = ''0xW2'', ti_receiver = ''0xR'', ti_amount = 1000\<rparr>,
               \<lparr>ti_token = 1, ti_sender = ''0xW2'', ti_receiver = ''0xR'', ti_amount = 1000\<rparr>]]))"
proof -
  let ?md = "\<lparr>config = \<lparr>chainId = 1, providerURL = ''http://127.0.0.1:7546'', contract = ''0xC'',
                            ownerWallet = \<lparr>coinType = 60, account = 0, change = 0, index = 0\<rparr>\<rparr>,
                 provider = \<lparr>contract_getTokenByAddress = (\<lambda>a. if a = ''0xT'' then 1 else 0),
                              erc20_balanceOf = (\<lambda>t w. if w = ''0xW1'' then 1000 else 5000),
                              erc20_allowance = (\<lambda>t w c. if w = ''0xW1'' then 10 else 5000),
                              getBalance = (\<lambda>a. if a = ''0xC'' then 5 else 0),
                              getTransactionCount = (\<lambda>a. 7),
                              accepted = (\<lambda>c. True)\<rparr>\<rparr>"
  let ?hw = "(\<lambda>w. if account w = 0 then ''0xOwner'' else if account w = 1 then ''0xW1'' else ''0xW2'')"
  let ?unregistered = "\<lparr>wallet = \<lparr>coinType = 60, account = 2, change = 0, index = 0\<rparr>,
                   tokenAddress = ''0xU'', sti_amount = 1, sti_receiver = ''0xR''\<rparr>"
  let ?good = "\<lparr>wallet = \<lparr>coinType = 60, account = 2, change = 0, index = 0\<rparr>,
                   tokenAddress = ''0xT'', sti_amount = 1000, sti_receiver = ''0xR''\<rparr>"
  have e: "fst (validateLoop ?md ?hw [?good, ?unregistered] [] [])
      = [\<lparr>code = ''TOKEN_NOT_IN_CONTRACT'', message = ''Token 0xU is not in the contract.''\<rparr>]"
    by (simp add: Let_def checkTokenExistInContract_def checkWalletTokenBalance_def
        checkWalletAllowance_def getEtherSigner_def)
  have c: "fst (validateLoop ?md ?hw [?good, ?good] [] []) = []"
    by (simp add: Let_def checkTokenExistInContract_def checkWalletTokenBalance_def
        checkWalletAllowance_def getEtherSigner_def)
  from e processTokenInvoices_all_or_nothing [of ?md ?hw "[?good, ?unregistered]"]
  have r1: "processTokenInvoices ?md ?hw [?good, ?unregistered]
         = (Inr [\<lparr>code = ''TOKEN_NOT_IN_CONTRACT'', message = ''Token 0xU is not in the contract.''\<rparr>], [])"
    by simp
  from c processTokenInvoices_all_or_nothing [of ?md ?hw "[?good, ?good]"]
  have r2: "processTokenInvoices ?md ?hw [?good, ?good]
         = (Inr [], [Call_erc20sMultiOriginBulkTransferAmounts ''0xOwner''
              [\<lparr>ti_token = 1, ti_sender = ''0xW2'', ti_receiver = ''0xR'', ti_amount = 1000\<rparr>,
               \<lparr>ti_token = 1, ti_sender = ''0xW2'', ti_receiver = ''0xR'', ti_amount = 1000\<rparr>]])"
    by (simp add: Let_def ledger_invoice_def)
  from e have e': "fst (validateLoop ?md ?hw [?good, ?unregistered] [] []) \<noteq> []"
    by simp
  show ?thesis
    unfolding Let_def by (intro conjI e' r1 c r2)
qed

text \<open>
  C9 (fund gate of the native path): \<open>processInvoices\<close> sums the invoice amounts;
  when the sum strictly exceeds the balance the executor contract holds plus the funding
  amount, it throws the insufficient-funds error and sends no write to the ledger;
  otherwise it sends exactly one write, the native distribution call with the invoices
  and the funding amount as value (a rejection of that write by the ledger is thrown).
\<close>

theorem processInvoices_fund_gate:
  "(sum_list (map si_amount sendingInvoices) > getBalance (provider this) (contract (config this)) + amount \<longrightarrow>
      processInvoices this hdWallet amount sendingInvoices
        = (Inl (Error ''Insufficient funds in contract to process invoices''), []))
   \<and> (\<not> sum_list (map si_amount sendingInvoices) > getBalance (provider this) (contract (config this)) + amount \<longrightarrow>
      processInvoices this hdWallet amount sendingInvoices
        = (let signer = hdWallet (ownerWallet (config this));
               call = Call_etherBulkTransferAmounts signer sendingInvoices amount
                        (getTransactionCount (provider this) signer)
           in (if accepted (provider this) call then Inr () else Inl (CallException call), [call])))"
  by (simp add: processInvoices_def sumInvoices_sum_list getEtherSigner_def Let_def)

theorem processInvoices_fund_gate_witness:
  "(let this0 = \<lparr>config = \<lparr>chainId = 1, providerURL = ''http://127.0.0.1:7546'', contract = ''0xC'',
                            ownerWallet = \<lparr>coinType = 60, account = 0, change = 0, index = 0\<rparr>\<rparr>,
                 provider = \<lparr>contract_getTokenByAddress = (\<lambda>a. if a = ''0xT'' then 1 else 0),
                              erc20_balanceOf = (\<lambda>t w. if w = ''0xW1'' then 1000 else 5000),
                              erc20_allowance = (\<lambda>t w c. if w = ''0xW1'' then 10 else 5000),
                              getBalance = (\<lambda>a. if a = ''0xC'' then 5 else 0),
                              getTransactionCount = (\<lambda>a. 7),
                              accepted = (\<lambda>c. True)\<rparr>\<rparr>;
        hd0 = (\<lambda>w. if account w = 0 then ''0xOwner'' else if account w = 1 then ''0xW1'' else ''0xW2'');
        invoices = [\<lparr>si_amount = 10, si_receiver = ''0xR1''\<rparr>, \<lparr>si_amount = 20, si_receiver = ''0xR2''\<rparr>]
    in sum_list (map si_amount invoices) > getBalance (provider this0) (contract (config this0)) + 10
     \<and> processInvoices this0 hd0 10 invoices
         = (Inl (Error ''Insufficient funds in contract to process invoices''), [])
     \<and> \<not> sum_list (map si_amount invoices) > getBalance (provider this0) (contract (config this0)) + 25
     \<and> processInvoices this0 hd0 25 invoices
         = (Inr (), [Call_etherBulkTransferAmounts ''0xOwner'' invoices 25 7]))"
proof -
  let ?md = "\<lparr>config = \<lparr>chainId = 1, providerURL = ''http://127.0.0.1:7546'', contract = ''0xC'',
                            ownerWallet = \<lparr>coinType = 60, account = 0, change = 0, index = 0\<rparr>\<rparr>,
                 provider = \<lparr>contract_getTokenByAddress = (\<lambda>a. if a = ''0xT'' then 1 else 0),
                              erc20_balanceOf = (\<lambda>t w. if w = ''0xW1'' then 1000 else 5000),
                              erc20_allowance = (\<lambda>t w c. if w = ''0xW1'' then 10 else 5000),
                              getBalance = (\<lambda>a. if a = ''0xC'' then 5 else 0),
                              getTransactionCount = (\<lambda>a. 7),
                              accepted = (\<lambda>c. True)\<rparr>\<rparr>"
  let ?hw = "(\<lambda>w. if account w = 0 then ''0xOwner'' else if account w = 1 then ''0xW1'' else ''0xW2'')"
  let ?invoices = "[\<lparr>si_amount = 10, si_receiver = ''0xR1''\<rparr>, \<lparr>si_amount = 20, si_receiver = ''0xR2''\<rparr>]"
  have h1: "sum_list (map si_amount ?invoices) > getBalance (provider ?md) (contract (config ?md)) + 10"
    by simp
  have h2: "\<not> sum_list (map si_amount ?invoices) > getBalance (provider ?md) (contract (config ?md)) + 25"
    by simp
  from h1 processInvoices_fund_gate [where sendingInvoices = ?invoices and this = ?md and amount = 10 and hdWallet = ?hw]
  have r1: "processInvoices ?md ?hw 10 ?invoices
         = (Inl (Error ''Insufficient funds in contract to process invoices''), [])"
    by simp
  from h2 processInvoices_fund_gate [where sendingInvoices = ?invoices and this = ?md and amount = 25 and hdWallet = ?hw]
  have r2: "processInvoices ?md ?hw 25 ?invoices
         = (Inr (), [Call_etherBulkTransferAmounts ''0xOwner'' ?invoices 25 7])"
    by (simp add: Let_def)
  show ?thesis
    unfolding Let_def by (intro conjI h1 r1 h2 r2)
qed

end
